theory Spec2Isabelle
  imports Main "HOL-Library.Option_ord"
begin

section \<open>Values shared by the whole sync engine\<close>

text \<open>
  A \<open>datetime\<close> is a reading in seconds, so that
  \<open>datetime.utcnow() + timedelta(seconds=n)\<close> is \<open>now + n\<close>. A Python datetime object
  is such a reading together with the fact whether it carries a time zone (is
  \<^emph>\<open>aware\<close>) or not (is \<^emph>\<open>naive\<close>): the pair \<open>(reading, aware)\<close>.
  \<open>datetime.utcnow()\<close> is naive. Every timestamp column of the schema is declared
  \<open>DateTime(timezone=True)\<close>, the migration uses the PostgreSQL dialect and the
  configured driver is asyncpg, so every timestamp that is read from the database is aware,
  whatever was assigned before it was stored; a naive value is stored as the instant that
  its reading denotes in the worker's time zone, which is taken to be UTC. A null timestamp
  is \<open>None\<close>. Every exception the Python code can
  raise on the paths modelled here is a value of \<open>error\<close>.
\<close>

type_synonym datetime = int

datatype error =
    KeyError string
  | TypeError
  | NameError string
  | BinasciiError
  | MultipleResultsFound
  | InvalidToken
  | HTTPStatusError nat

text \<open>
  \<open>a < b\<close> on two datetime objects: Python orders them when both are aware or both are
  naive, and raises \<open>TypeError\<close> (can't compare offset-naive and offset-aware datetimes)
  otherwise. \<open>b > a\<close> is the same comparison.
\<close>

definition datetime_less :: "datetime \<times> bool \<Rightarrow> datetime \<times> bool \<Rightarrow> error + bool" where
  "datetime_less a b = (if snd a = snd b then Inr (fst a < fst b) else Inl TypeError)"

datatype email_provider = GMAIL | OUTLOOK

text \<open>Python truthiness of an optional string: \<open>None\<close> and \<open>''\<close> are both false.\<close>

fun truthy :: "string option \<Rightarrow> bool" where
  "truthy None = False"
| "truthy (Some s) = (s \<noteq> [])"

text \<open>\<open>dict.get(key, default)\<close> on an optional field.\<close>

fun get_default :: "'a option \<Rightarrow> 'a \<Rightarrow> 'a" where
  "get_default None d = d"
| "get_default (Some v) d = v"

text \<open>\<open>s.split(',')\<close>: the empty string splits into one empty piece.\<close>

fun split_comma :: "string \<Rightarrow> string list" where
  "split_comma [] = [[]]"
| "split_comma (c # cs) =
     (if c = CHR '','' then [] # split_comma cs
      else (case split_comma cs of
              [] \<Rightarrow> [[c]]
            | w # ws \<Rightarrow> (c # w) # ws))"

text \<open>\<open>s.replace('Z', '+00:00')\<close>.\<close>

fun replace_Z :: "string \<Rightarrow> string" where
  "replace_Z [] = []"
| "replace_Z (c # cs) = (if c = CHR ''Z'' then ''+00:00'' @ replace_Z cs else c # replace_Z cs)"

section \<open>Raw provider records and the canonical record\<close>

text \<open>
  A raw record is the JSON object the provider returns. A key that may be absent is an
  \<open>option\<close> field; reading it with \<open>d['k']\<close> raises \<open>KeyError\<close> when it is
  \<open>None\<close>, reading it with \<open>d.get('k', v)\<close> gives the default.
\<close>

record gmail_body =
  gb_data :: "string option"
  gb_attachmentId :: "string option"
  gb_size :: "int option"

record gmail_part =
  gp_filename :: "string option"
  gp_mimeType :: "string option"
  gp_body :: "gmail_body option"

record gmail_payload =
  pl_headers :: "(string \<times> string) list option"
  pl_parts :: "gmail_part list option"
  pl_body :: "gmail_body option"

record gmail_message =
  gm_id :: "string option"
  gm_threadId :: "string option"
  gm_payload :: "gmail_payload option"
  gm_snippet :: "string option"

record outlook_email_address =
  ea_address :: "string option"

record outlook_recipient =
  r_emailAddress :: "outlook_email_address option"

record outlook_body =
  ob_contentType :: "string option"
  ob_content :: "string option"

record outlook_attachment =
  oa_name :: "string option"
  oa_contentType :: "string option"
  oa_size :: "int option"
  oa_id :: "string option"

record outlook_message =
  om_id :: "string option"
  om_conversationId :: "string option"
  om_receivedDateTime :: "string option"
  om_sentDateTime :: "string option"
  om_toRecipients :: "outlook_recipient list option"
  om_ccRecipients :: "outlook_recipient list option"
  om_bccRecipients :: "outlook_recipient list option"
  om_from :: "outlook_recipient option"
  om_body :: "outlook_body option"
  om_subject :: "string option"
  om_bodyPreview :: "string option"
  om_hasAttachments :: "bool option"
  om_attachments :: "outlook_attachment list option"

record parsed_attachment =
  pa_filename :: string
  pa_mime_type :: string
  pa_size :: int
  pa_attachment_id :: string

text \<open>
  The dict both \<open>parse_message\<close> methods return. The Gmail one has no \<open>bcc_addrs\<close>
  key, hence the option. The datetime object under the key \<open>date\<close> is the two fields
  \<open>p_date\<close>, its reading, and \<open>p_date_aware\<close>.
\<close>

record parsed_message =
  p_provider_message_id :: string
  p_thread_id :: string
  p_from_addr :: string
  p_to_addrs :: "string list"
  p_cc_addrs :: "string list"
  p_bcc_addrs :: "string list option"
  p_subject :: string
  p_date :: datetime
  p_date_aware :: bool
  p_body_text :: string
  p_body_html :: string
  p_snippet :: string
  p_attachments :: "parsed_attachment list"
  p_has_attachments :: bool

text \<open>
  The library calls of the two parsers, taken as parameters: each returns \<open>None\<close> where
  the Python function raises. The two date parsers return a datetime object, aware when the
  string names a zone offset and naive when it does not (or names \<open>-0000\<close>, for
  \<open>parsedate_to_datetime\<close>).
\<close>

record parse_lib =
  parsedate_to_datetime :: "string \<Rightarrow> (datetime \<times> bool) option"
  fromisoformat :: "string \<Rightarrow> (datetime \<times> bool) option"
  urlsafe_b64decode :: "string \<Rightarrow> string option"

section \<open>GmailService.parse\_message\<close>

text \<open>
  The first loop over \<open>payload['parts']\<close>: \<open>part['mimeType']\<close> and, for the two text
  types, \<open>part['body']\<close> are read with brackets. The pair is
  \<open>(body_text, body_html)\<close>.
\<close>

fun gmail_part_bodies ::
  "parse_lib \<Rightarrow> gmail_part list \<Rightarrow> string \<times> string \<Rightarrow> error + string \<times> string" where
  "gmail_part_bodies lib [] acc = Inr acc"
| "gmail_part_bodies lib (part # parts) (body_text, body_html) =
     (case gp_mimeType part of
        None \<Rightarrow> Inl (KeyError ''mimeType'')
      | Some mt \<Rightarrow>
          if mt = ''text/plain'' \<or> mt = ''text/html'' then
            (case gp_body part of
               None \<Rightarrow> Inl (KeyError ''body'')
             | Some body \<Rightarrow>
                 (case gb_data body of
                    None \<Rightarrow> gmail_part_bodies lib parts (body_text, body_html)
                  | Some d \<Rightarrow>
                      (case urlsafe_b64decode lib d of
                         None \<Rightarrow> Inl BinasciiError
                       | Some txt \<Rightarrow>
                           if mt = ''text/plain''
                           then gmail_part_bodies lib parts (txt, body_html)
                           else gmail_part_bodies lib parts (body_text, txt))))
          else gmail_part_bodies lib parts (body_text, body_html))"

text \<open>The second loop: a part with a file name and an attachment id is an attachment.\<close>

fun gmail_part_attachments :: "gmail_part list \<Rightarrow> error + parsed_attachment list" where
  "gmail_part_attachments [] = Inr []"
| "gmail_part_attachments (part # parts) =
     (case (gp_filename part, gp_body part) of
        (Some fname, Some body) \<Rightarrow>
          if fname \<noteq> [] \<and> truthy (gb_attachmentId body) then
            (case gp_mimeType part of
               None \<Rightarrow> Inl (KeyError ''mimeType'')
             | Some mt \<Rightarrow>
                 (case gmail_part_attachments parts of
                    Inl e \<Rightarrow> Inl e
                  | Inr atts \<Rightarrow>
                      Inr (\<lparr>pa_filename = fname, pa_mime_type = mt,
                            pa_size = get_default (gb_size body) 0,
                            pa_attachment_id = get_default (gb_attachmentId body) []\<rparr> # atts)))
          else gmail_part_attachments parts
      | _ \<Rightarrow> gmail_part_attachments parts)"

text \<open>
  The header dict is built by a comprehension, so the last header of a name wins.
\<close>

definition header_get :: "(string \<times> string) list \<Rightarrow> string \<Rightarrow> string option" where
  "header_get hs k = map_of (rev hs) k"

text \<open>
  The block under \<open># Extract body\<close>: the loop when the payload has parts, else the
  payload's own body when it has data. The block under \<open># Extract attachments\<close> looks
  at the parts only.
\<close>

definition gmail_extract_body :: "parse_lib \<Rightarrow> gmail_payload \<Rightarrow> error + string \<times> string" where
  "gmail_extract_body lib payload =
     (case pl_parts payload of
        Some parts \<Rightarrow> gmail_part_bodies lib parts ([], [])
      | None \<Rightarrow>
          (case pl_body payload of
             Some body \<Rightarrow>
               (case gb_data body of
                  Some d \<Rightarrow>
                    (case urlsafe_b64decode lib d of
                       None \<Rightarrow> Inl BinasciiError
                     | Some txt \<Rightarrow> Inr (txt, []))
                | None \<Rightarrow> Inr ([], []))
           | None \<Rightarrow> Inr ([], [])))"

definition gmail_extract_attachments :: "gmail_payload \<Rightarrow> error + parsed_attachment list" where
  "gmail_extract_attachments payload =
     (case pl_parts payload of
        Some parts \<Rightarrow> gmail_part_attachments parts
      | None \<Rightarrow> Inr [])"

text \<open>
  The date falls back to the clock, a naive datetime, when \<open>parsedate_to_datetime\<close>
  raises. The returned dict reads \<open>message['id']\<close> and \<open>message['threadId']\<close> with brackets; every header is
  read with \<open>get\<close>.
\<close>

definition gmail_parse_message ::
  "parse_lib \<Rightarrow> datetime \<Rightarrow> gmail_message \<Rightarrow> error + parsed_message" where
  "gmail_parse_message lib utcnow message =
     (case gm_payload message of
        None \<Rightarrow> Inl (KeyError ''payload'')
      | Some payload \<Rightarrow>
          (case gmail_extract_body lib payload of
             Inl e \<Rightarrow> Inl e
           | Inr (body_text, body_html) \<Rightarrow>
               (case gmail_extract_attachments payload of
                  Inl e \<Rightarrow> Inl e
                | Inr attachments \<Rightarrow>
                    (case gm_id message of
                       None \<Rightarrow> Inl (KeyError ''id'')
                     | Some mid \<Rightarrow>
                         (case gm_threadId message of
                            None \<Rightarrow> Inl (KeyError ''threadId'')
                          | Some tid \<Rightarrow>
                              let headers = get_default (pl_headers payload) [];
                                  date_str = get_default (header_get headers ''Date'') [];
                                  date = (case parsedate_to_datetime lib date_str of
                                            Some d \<Rightarrow> d
                                          | None \<Rightarrow> (utcnow, False))
                              in
                              Inr \<lparr>p_provider_message_id = mid,
                                   p_thread_id = tid,
                                   p_from_addr = get_default (header_get headers ''From'') [],
                                   p_to_addrs =
                                     split_comma (get_default (header_get headers ''To'') []),
                                   p_cc_addrs =
                                     (if truthy (header_get headers ''Cc'')
                                      then split_comma (get_default (header_get headers ''Cc'') [])
                                      else []),
                                   p_bcc_addrs = None,
                                   p_subject = get_default (header_get headers ''Subject'') [],
                                   p_date = fst date,
                                   p_date_aware = snd date,
                                   p_body_text = body_text,
                                   p_body_html = body_html,
                                   p_snippet = get_default (gm_snippet message) [],
                                   p_attachments = attachments,
                                   p_has_attachments = (0 < length attachments)\<rparr>)))))"

section \<open>OutlookService.parse\_message\<close>

text \<open>\<open>[r['emailAddress']['address'] for r in recipients]\<close>.\<close>

fun recipient_addresses :: "outlook_recipient list \<Rightarrow> error + string list" where
  "recipient_addresses [] = Inr []"
| "recipient_addresses (r # rs) =
     (case r_emailAddress r of
        None \<Rightarrow> Inl (KeyError ''emailAddress'')
      | Some ea \<Rightarrow>
          (case ea_address ea of
             None \<Rightarrow> Inl (KeyError ''address'')
           | Some a \<Rightarrow>
               (case recipient_addresses rs of
                  Inl e \<Rightarrow> Inl e
                | Inr as \<Rightarrow> Inr (a # as))))"

definition outlook_attachment_entry :: "outlook_attachment \<Rightarrow> parsed_attachment" where
  "outlook_attachment_entry att =
     \<lparr>pa_filename = get_default (oa_name att) [],
      pa_mime_type = get_default (oa_contentType att) [],
      pa_size = get_default (oa_size att) 0,
      pa_attachment_id = get_default (oa_id att) []\<rparr>"

definition outlook_parse_message ::
  "parse_lib \<Rightarrow> datetime \<Rightarrow> outlook_message \<Rightarrow> error + parsed_message" where
  "outlook_parse_message lib utcnow message =
     (let date_str =
            (case om_receivedDateTime message of
               Some s \<Rightarrow> s
             | None \<Rightarrow> get_default (om_sentDateTime message) []);
          date = (case fromisoformat lib (replace_Z date_str) of
                    Some d \<Rightarrow> d
                  | None \<Rightarrow> (utcnow, False))
      in
      (case recipient_addresses (get_default (om_toRecipients message) []) of
         Inl e \<Rightarrow> Inl e
       | Inr to_addrs \<Rightarrow>
      (case recipient_addresses (get_default (om_ccRecipients message) []) of
         Inl e \<Rightarrow> Inl e
       | Inr cc_addrs \<Rightarrow>
      (case recipient_addresses (get_default (om_bccRecipients message) []) of
         Inl e \<Rightarrow> Inl e
       | Inr bcc_addrs \<Rightarrow>
          let from_addr =
                (case om_from message of
                   None \<Rightarrow> []
                 | Some f \<Rightarrow>
                     (case r_emailAddress f of
                        None \<Rightarrow> []
                      | Some ea \<Rightarrow> get_default (ea_address ea) []));
              content_type = (case om_body message of None \<Rightarrow> None | Some b \<Rightarrow> ob_contentType b);
              content = (case om_body message of
                           None \<Rightarrow> []
                         | Some b \<Rightarrow> get_default (ob_content b) []);
              body_html = (if content_type = Some ''html'' then content else []);
              body_text = (if content_type = Some ''html'' then [] else content);
              attachments =
                (if om_hasAttachments message = Some True
                 then map outlook_attachment_entry (get_default (om_attachments message) [])
                 else [])
          in
          (case om_id message of
             None \<Rightarrow> Inl (KeyError ''id'')
           | Some mid \<Rightarrow>
               Inr \<lparr>p_provider_message_id = mid,
                    p_thread_id = get_default (om_conversationId message) mid,
                    p_from_addr = from_addr,
                    p_to_addrs = to_addrs,
                    p_cc_addrs = cc_addrs,
                    p_bcc_addrs = Some bcc_addrs,
                    p_subject = get_default (om_subject message) [],
                    p_date = fst date,
                    p_date_aware = snd date,
                    p_body_text = body_text,
                    p_body_html = body_html,
                    p_snippet = get_default (om_bodyPreview message) [],
                    p_attachments = attachments,
                    p_has_attachments = get_default (om_hasAttachments message) False\<rparr>)))))"

section \<open>The persisted schema\<close>

text \<open>
  The columns the sync engine reads or writes. Primary keys are natural numbers; a nullable
  column is an \<open>option\<close>. A timestamp column holds a reading. The last field of a thread
  is not a column: it tells whether the datetime object that the session holds as the
  thread's \<open>last_message_at\<close> is aware. It is for every thread that is read from the
  database; a thread that the session has created holds the object it was created with.
\<close>

record email_account =
  acc_id :: nat
  acc_provider :: email_provider
  access_token :: "string option"
  encrypted_refresh_token :: "string option"
  token_expiry :: "datetime option"
  sync_state :: "(string \<times> string) list option"
  last_synced_at :: "datetime option"
  is_active :: bool

record thread =
  t_id :: nat
  t_account_id :: nat
  t_provider_thread_id :: string
  t_subject :: string
  t_snippet :: string
  t_last_message_at :: "datetime option"
  t_last_message_at_aware :: bool

record message_row =
  m_id :: nat
  m_thread_id :: nat
  m_provider_message_id :: string
  m_from_addr :: string
  m_to_addrs :: "string list"
  m_cc_addrs :: "string list"
  m_bcc_addrs :: "string list"
  m_subject :: string
  m_date :: datetime
  m_body_text :: string
  m_body_html :: string
  m_has_attachments :: bool
  m_is_read :: bool

record attachment_row =
  a_id :: nat
  a_message_id :: nat
  a_filename :: string
  a_size :: int
  a_mime_type :: string
  a_provider_attachment_id :: string

record store =
  accounts :: "email_account list"
  threads :: "thread list"
  messages :: "message_row list"
  attachments :: "attachment_row list"

text \<open>The rows as the database hands them back: every timestamp aware.\<close>

definition as_stored :: "store \<Rightarrow> store" where
  "as_stored s = s\<lparr>threads := map (\<lambda>t. t\<lparr>t_last_message_at_aware := True\<rparr>) (threads s)\<rparr>"

text \<open>An autoincrement key: larger than every key in the table.\<close>

definition next_id :: "nat list \<Rightarrow> nat" where
  "next_id ids = Suc (fold max ids 0)"

text \<open>\<open>Result.scalar_one_or_none()\<close> raises when the query matches several rows.\<close>

fun scalar_one_or_none :: "'a list \<Rightarrow> error + 'a option" where
  "scalar_one_or_none [] = Inr None"
| "scalar_one_or_none [x] = Inr (Some x)"
| "scalar_one_or_none (x # y # zs) = Inl MultipleResultsFound"

section \<open>Ingesting one record\<close>

fun add_attachments ::
  "nat \<Rightarrow> parsed_attachment list \<Rightarrow> attachment_row list \<Rightarrow> attachment_row list" where
  "add_attachments mid [] rows = rows"
| "add_attachments mid (att # atts) rows =
     add_attachments mid atts
       (rows @ [\<lparr>a_id = next_id (map a_id rows), a_message_id = mid,
                 a_filename = pa_filename att, a_size = pa_size att,
                 a_mime_type = pa_mime_type att,
                 a_provider_attachment_id = pa_attachment_id att\<rparr>])"

text \<open>
  The get-or-create of the thread. On create the thread is seeded from the record; on find
  the comparison \<open>parsed['date'] > thread.last_message_at\<close> decides the update. It raises
  \<open>TypeError\<close> against a null timestamp, and when one of the two datetimes is aware and
  the other is naive: a date that fell back to the clock against a thread read from the
  database, say. The result is the thread's key and the table.
\<close>

definition get_or_create_thread ::
  "parsed_message \<Rightarrow> email_account \<Rightarrow> thread list \<Rightarrow> error + nat \<times> thread list" where
  "get_or_create_thread parsed account ts =
     (case scalar_one_or_none
             (filter (\<lambda>t. t_account_id t = acc_id account \<and>
                           t_provider_thread_id t = p_thread_id parsed) ts) of
        Inl e \<Rightarrow> Inl e
      | Inr None \<Rightarrow>
          let new_id = next_id (map t_id ts) in
          Inr (new_id,
               ts @ [\<lparr>t_id = new_id, t_account_id = acc_id account,
                      t_provider_thread_id = p_thread_id parsed,
                      t_subject = p_subject parsed, t_snippet = p_snippet parsed,
                      t_last_message_at = Some (p_date parsed),
                      t_last_message_at_aware = p_date_aware parsed\<rparr>])
      | Inr (Some found) \<Rightarrow>
          (case t_last_message_at found of
             None \<Rightarrow> Inl TypeError
           | Some prev \<Rightarrow>
               (case datetime_less (prev, t_last_message_at_aware found)
                       (p_date parsed, p_date_aware parsed) of
                  Inl e \<Rightarrow> Inl e
                | Inr later \<Rightarrow>
                    if later then
                      Inr (t_id found,
                           map (\<lambda>t. if t_id t = t_id found
                                     then t\<lparr>t_last_message_at := Some (p_date parsed),
                                             t_snippet := p_snippet parsed\<rparr>
                                     else t) ts)
                    else Inr (t_id found, ts))))"

text \<open>
  The body that \<open>process_gmail_message\<close> and \<open>process_outlook_message\<close> share word for
  word after their call of \<open>parse_message\<close>: the existence check on
  \<open>provider_message_id\<close>, the thread, the message, the attachments. The store is the
  session's view: rows added earlier in the same session are visible.
\<close>

definition store_parsed :: "parsed_message \<Rightarrow> email_account \<Rightarrow> store \<Rightarrow> error + store" where
  "store_parsed parsed account w =
     (case scalar_one_or_none
             (filter (\<lambda>m. m_provider_message_id m = p_provider_message_id parsed)
                (messages w)) of
        Inl e \<Rightarrow> Inl e
      | Inr (Some existing) \<Rightarrow> Inr w
      | Inr None \<Rightarrow>
          (case get_or_create_thread parsed account (threads w) of
             Inl e \<Rightarrow> Inl e
           | Inr (tid, ts) \<Rightarrow>
               let mid = next_id (map m_id (messages w)) in
               Inr (w\<lparr>threads := ts,
                      messages := messages w @
                        [\<lparr>m_id = mid, m_thread_id = tid,
                          m_provider_message_id = p_provider_message_id parsed,
                          m_from_addr = p_from_addr parsed,
                          m_to_addrs = p_to_addrs parsed,
                          m_cc_addrs = p_cc_addrs parsed,
                          m_bcc_addrs = [],
                          m_subject = p_subject parsed,
                          m_date = p_date parsed,
                          m_body_text = p_body_text parsed,
                          m_body_html = p_body_html parsed,
                          m_has_attachments = p_has_attachments parsed,
                          m_is_read = False\<rparr>],
                      attachments :=
                        add_attachments mid (p_attachments parsed) (attachments w)\<rparr>)))"

definition process_gmail_message ::
  "parse_lib \<Rightarrow> datetime \<Rightarrow> gmail_message \<Rightarrow> email_account \<Rightarrow> store \<Rightarrow> error + store" where
  "process_gmail_message lib utcnow msg_data account w =
     (case gmail_parse_message lib utcnow msg_data of
        Inl e \<Rightarrow> Inl e
      | Inr parsed \<Rightarrow> store_parsed parsed account w)"

definition process_outlook_message ::
  "parse_lib \<Rightarrow> datetime \<Rightarrow> outlook_message \<Rightarrow> email_account \<Rightarrow> store \<Rightarrow> error + store" where
  "process_outlook_message lib utcnow msg_data account w =
     (case outlook_parse_message lib utcnow msg_data of
        Inl e \<Rightarrow> Inl e
      | Inr parsed \<Rightarrow> store_parsed parsed account w)"

text \<open>
  The loops \<open>for msg_data in result.get('messages', [])\<close>. The clock is read anew for each
  record: \<open>clock k\<close> is what \<open>datetime.utcnow()\<close> returns while record \<open>k\<close> is parsed.
  The first exception ends the loop.
\<close>

fun process_gmail_messages ::
  "parse_lib \<Rightarrow> (nat \<Rightarrow> datetime) \<Rightarrow> nat \<Rightarrow> gmail_message list \<Rightarrow> email_account \<Rightarrow> store
     \<Rightarrow> error + store" where
  "process_gmail_messages lib clock k [] account w = Inr w"
| "process_gmail_messages lib clock k (msg_data # rest) account w =
     (case process_gmail_message lib (clock k) msg_data account w of
        Inl e \<Rightarrow> Inl e
      | Inr w' \<Rightarrow> process_gmail_messages lib clock (Suc k) rest account w')"

fun process_outlook_messages ::
  "parse_lib \<Rightarrow> (nat \<Rightarrow> datetime) \<Rightarrow> nat \<Rightarrow> outlook_message list \<Rightarrow> email_account \<Rightarrow> store
     \<Rightarrow> error + store" where
  "process_outlook_messages lib clock k [] account w = Inr w"
| "process_outlook_messages lib clock k (msg_data # rest) account w =
     (case process_outlook_message lib (clock k) msg_data account w of
        Inl e \<Rightarrow> Inl e
      | Inr w' \<Rightarrow> process_outlook_messages lib clock (Suc k) rest account w')"

section \<open>The world outside: providers, encryption, clock, settings\<close>

record token_response =
  tr_access_token :: "string option"
  tr_expires_in :: "int option"
  tr_refresh_token :: "string option"

text \<open>The response of Gmail's \<open>history.list\<close>: records, each with the messages added.\<close>

record gmail_history_record =
  hr_messagesAdded :: "gmail_message list option"

record gmail_history =
  gh_history :: "gmail_history_record list option"

text \<open>
  The two URLs \<open>OutlookService.fetch_messages\<close> requests: a stored delta link, or the
  inbox delta query with \<open>$top=max_results\<close>.
\<close>

datatype outlook_request = DeltaLink string | InboxDelta int

record outlook_page =
  op_value :: "outlook_message list option"
  op_deltaLink :: "string option"
  op_nextLink :: "string option"

text \<open>
  Every call that leaves the process is a field of the environment and returns the
  exception it raises as \<open>Inl\<close>. \<open>outlook_get\<close> is the request together with
  \<open>raise_for_status()\<close> and \<open>json()\<close>. The provider calls take the access token as
  first argument. The four clock fields are the readings of \<open>datetime.utcnow()\<close> at the
  expiry check, inside \<open>refresh_token\<close>, in the parser's fallback for record \<open>k\<close>, and at
  the final \<open>last_synced_at\<close> assignment.
\<close>

record env =
  lib :: parse_lib
  decrypt :: "string \<Rightarrow> error + string"
  encrypt :: "string \<Rightarrow> string"
  gmail_refresh_access_token :: "string \<Rightarrow> error + token_response"
  outlook_refresh_access_token :: "string \<Rightarrow> error + token_response"
  gmail_history_list :: "string option \<Rightarrow> string \<Rightarrow> error + gmail_history"
  gmail_messages_list :: "string option \<Rightarrow> int \<Rightarrow> error + string list option"
  gmail_messages_get :: "string option \<Rightarrow> string \<Rightarrow> error + gmail_message"
  gmail_get_profile :: "string option \<Rightarrow> error + string option"
  outlook_get :: "outlook_request \<Rightarrow> string option \<Rightarrow> error + outlook_page"
  MAX_MESSAGES_PER_ACCOUNT :: int
  utcnow_check :: datetime
  utcnow_refresh :: datetime
  utcnow_parse :: "nat \<Rightarrow> datetime"
  utcnow_synced :: datetime

section \<open>GmailService.fetch\_messages and OutlookService.fetch\_messages\<close>

datatype gmail_fetch_result =
    HistoryResult gmail_history
  | FullResult "gmail_message list" "string option"

fun gmail_get_full_messages ::
  "env \<Rightarrow> string option \<Rightarrow> string list \<Rightarrow> error + gmail_message list" where
  "gmail_get_full_messages env tok [] = Inr []"
| "gmail_get_full_messages env tok (i # ids) =
     (case gmail_messages_get env tok i of
        Inl e \<Rightarrow> Inl e
      | Inr full_msg \<Rightarrow>
          (case gmail_get_full_messages env tok ids of
             Inl e \<Rightarrow> Inl e
           | Inr message_list \<Rightarrow> Inr (full_msg # message_list)))"

definition gmail_full_sync :: "env \<Rightarrow> string option \<Rightarrow> int \<Rightarrow> error + gmail_fetch_result" where
  "gmail_full_sync env tok max_results =
     (case gmail_messages_list env tok max_results of
        Inl e \<Rightarrow> Inl e
      | Inr listed \<Rightarrow>
          (case gmail_get_full_messages env tok (get_default listed []) of
             Inl e \<Rightarrow> Inl e
           | Inr message_list \<Rightarrow>
               (case gmail_get_profile env tok of
                  Inl e \<Rightarrow> Inl e
                | Inr history_id \<Rightarrow> Inr (FullResult message_list history_id))))"

text \<open>
  With a history id the history is requested first; \<open>except Exception: pass\<close> turns any
  failure of that request into the full sync.
\<close>

definition gmail_fetch_messages ::
  "env \<Rightarrow> string option \<Rightarrow> int \<Rightarrow> string option \<Rightarrow> error + gmail_fetch_result" where
  "gmail_fetch_messages env tok max_results history_id =
     (if truthy history_id then
        (case gmail_history_list env tok (get_default history_id []) of
           Inr history \<Rightarrow> Inr (HistoryResult history)
         | Inl e \<Rightarrow> gmail_full_sync env tok max_results)
      else gmail_full_sync env tok max_results)"

record outlook_fetch_result =
  of_messages :: "outlook_message list"
  of_delta_link :: "string option"
  of_next_link :: "string option"

definition outlook_fetch_messages ::
  "env \<Rightarrow> string option \<Rightarrow> int \<Rightarrow> string option \<Rightarrow> error + outlook_fetch_result" where
  "outlook_fetch_messages env tok max_results delta_link =
     (case (if truthy delta_link
            then outlook_get env (DeltaLink (get_default delta_link [])) tok
            else outlook_get env (InboxDelta max_results) tok) of
        Inl e \<Rightarrow> Inl e
      | Inr data \<Rightarrow>
          Inr \<lparr>of_messages = get_default (op_value data) [],
               of_delta_link = op_deltaLink data,
               of_next_link = op_nextLink data\<rparr>)"

section \<open>The database session\<close>

text \<open>
  What the session did, in order: the provider calls with their arguments, and every commit
  with the database state it made durable.
\<close>

datatype event =
    RefreshCall email_provider string
  | FetchCall email_provider "string option" "string option"
  | Commit store
  | Rollback

text \<open>
  \<open>committed\<close> is the database; \<open>working\<close> is the open transaction as the session
  sees it, with the rows flushed so far. The account is an object of the session: its
  attribute assignments are pending on the object and are written by the next commit, or
  lost by a rollback. \<open>AsyncSessionLocal\<close> comes from the module \<open>src.database\<close>, which
  is not among the sources; it is taken to be a SQLAlchemy session factory on the
  configured database, and commits and rollbacks themselves do not fail. A new session
  sees the database as stored, and so does a session after its commit.
\<close>

record session =
  committed :: store
  working :: store
  trace :: "event list"

definition AsyncSessionLocal :: "store \<Rightarrow> session" where
  "AsyncSessionLocal s = \<lparr>committed = s, working = as_stored s, trace = []\<rparr>"

definition set_account :: "email_account \<Rightarrow> store \<Rightarrow> store" where
  "set_account account s =
     s\<lparr>accounts := map (\<lambda>a. if acc_id a = acc_id account then account else a) (accounts s)\<rparr>"

definition commit :: "email_account \<Rightarrow> session \<Rightarrow> session" where
  "commit account db =
     (let w = as_stored (set_account account (working db))
      in \<lparr>committed = w, working = w, trace = trace db @ [Commit w]\<rparr>)"

definition rollback :: "session \<Rightarrow> session" where
  "rollback db = db\<lparr>working := committed db, trace := trace db @ [Rollback]\<rparr>"

definition record_event :: "event \<Rightarrow> session \<Rightarrow> session" where
  "record_event ev db = db\<lparr>trace := trace db @ [ev]\<rparr>"

section \<open>refresh\_token\<close>

text \<open>
  Without a refresh token the account is marked inactive and the function returns, with
  no commit. Otherwise every exception of the \<open>try\<close> block (decryption, the provider's
  refusal, a response without \<open>access_token\<close>) ends in the handler, which marks the account
  inactive and commits; nothing is raised to the caller. \<open>provider\<close> is one of the two
  enum members, so the \<open>else: return\<close> branch is never taken.
\<close>

definition refresh_failed :: "email_account \<Rightarrow> session \<Rightarrow> email_account \<times> session" where
  "refresh_failed account db =
     (let account' = account\<lparr>is_active := False\<rparr> in (account', commit account' db))"

definition refresh_token :: "env \<Rightarrow> email_account \<Rightarrow> session \<Rightarrow> email_account \<times> session" where
  "refresh_token env account db =
     (if \<not> truthy (encrypted_refresh_token account) then (account\<lparr>is_active := False\<rparr>, db)
      else
        (case decrypt env (get_default (encrypted_refresh_token account) []) of
           Inl e \<Rightarrow> refresh_failed account db
         | Inr refresh_tok \<Rightarrow>
             let db1 = record_event (RefreshCall (acc_provider account) refresh_tok) db in
             (case (case acc_provider account of
                      GMAIL \<Rightarrow> gmail_refresh_access_token env refresh_tok
                    | OUTLOOK \<Rightarrow> outlook_refresh_access_token env refresh_tok) of
                Inl e \<Rightarrow> refresh_failed account db1
              | Inr tokens \<Rightarrow>
                  (case tr_access_token tokens of
                     None \<Rightarrow> refresh_failed account db1
                   | Some tok \<Rightarrow>
                       let account1 = account
                             \<lparr>access_token := Some tok,
                              token_expiry :=
                                Some (utcnow_refresh env + get_default (tr_expires_in tokens) 3600)\<rparr>;
                           account2 =
                             (case tr_refresh_token tokens of
                                None \<Rightarrow> account1
                              | Some new_tok \<Rightarrow>
                                  account1\<lparr>encrypted_refresh_token := Some (encrypt env new_tok)\<rparr>)
                       in (account2, commit account2 db1)))))"

section \<open>sync\_gmail\_account and sync\_outlook\_account\<close>

text \<open>
  The incremental branch of \<open>sync_gmail_account\<close>: two nested loops whose body is
  \<open>pass\<close>.
\<close>

definition process_gmail_history :: "gmail_history \<Rightarrow> store \<Rightarrow> store" where
  "process_gmail_history history w =
     fold (\<lambda>history_record w1.
             fold (\<lambda>msg w2. w2) (get_default (hr_messagesAdded history_record) []) w1)
          (get_default (gh_history history) []) w"

text \<open>
  Both functions end with their own \<open>db.commit()\<close>, after the loop and the cursor
  assignment. An exception leaves before that commit; its handler prints and re-raises.
  The rows flushed before the exception are not returned: the only handler up the stack
  rolls the transaction back.
\<close>

definition sync_gmail_account ::
  "env \<Rightarrow> email_account \<Rightarrow> session \<Rightarrow> error \<times> session + email_account \<times> session" where
  "sync_gmail_account env account db =
     (let state = get_default (sync_state account) [];
          history_id = map_of state ''history_id'';
          db1 = record_event (FetchCall GMAIL (access_token account) history_id) db
      in
      (case gmail_fetch_messages env (access_token account)
              (MAX_MESSAGES_PER_ACCOUNT env) history_id of
         Inl e \<Rightarrow> Inl (e, db1)
       | Inr (FullResult msgs new_history_id) \<Rightarrow>
           (case process_gmail_messages (lib env) (utcnow_parse env) 0 msgs account
                   (working db1) of
              Inl e \<Rightarrow> Inl (e, db1)
            | Inr w \<Rightarrow>
                let account' =
                      (if truthy new_history_id
                       then account\<lparr>sync_state :=
                              Some [(''history_id'', get_default new_history_id [])]\<rparr>
                       else account)
                in Inr (account', commit account' (db1\<lparr>working := w\<rparr>)))
       | Inr (HistoryResult history) \<Rightarrow>
           Inr (account,
                commit account (db1\<lparr>working := process_gmail_history history (working db1)\<rparr>))))"

definition sync_outlook_account ::
  "env \<Rightarrow> email_account \<Rightarrow> session \<Rightarrow> error \<times> session + email_account \<times> session" where
  "sync_outlook_account env account db =
     (let state = get_default (sync_state account) [];
          delta_link = map_of state ''delta_link'';
          db1 = record_event (FetchCall OUTLOOK (access_token account) delta_link) db
      in
      (case outlook_fetch_messages env (access_token account)
              (MAX_MESSAGES_PER_ACCOUNT env) delta_link of
         Inl e \<Rightarrow> Inl (e, db1)
       | Inr result \<Rightarrow>
           (case process_outlook_messages (lib env) (utcnow_parse env) 0 (of_messages result)
                   account (working db1) of
              Inl e \<Rightarrow> Inl (e, db1)
            | Inr w \<Rightarrow>
                let account' =
                      (if truthy (of_delta_link result)
                       then account\<lparr>sync_state :=
                              Some [(''delta_link'', get_default (of_delta_link result) [])]\<rparr>
                       else account)
                in Inr (account', commit account' (db1\<lparr>working := w\<rparr>)))))"

section \<open>sync\_account\_async\<close>

datatype outcome =
    Success nat
  | Skipped string
  | Retry nat
  | Raised error

text \<open>
  The handler of \<open>sync_account_async\<close> rolls back and then evaluates
  \<open>self.retry(exc=e, countdown=2 ** self.request.retries * 60)\<close>. The task object is the
  parameter \<open>self\<close> of \<open>sync_account_task\<close>, which passes only the account id on;
  \<open>sync_account_async\<close> has no parameter, local or module global of that name, so the
  lookup of \<open>self\<close> raises \<open>NameError\<close> before any retry is requested.
\<close>

record celery_task =
  request_retries :: nat

definition sync_account_async_self :: "celery_task option" where
  "sync_account_async_self = None"

definition except_handler :: "error \<Rightarrow> session \<Rightarrow> outcome \<times> session" where
  "except_handler e db =
     (let db' = rollback db in
      (case sync_account_async_self of
         None \<Rightarrow> (Raised (NameError ''self''), db')
       | Some self \<Rightarrow> (Retry (2 ^ request_retries self * 60), db')))"

text \<open>
  The two blocks in the middle of \<open>sync_account_async\<close>. The first is the expiry check
  that guards the call of \<open>refresh_token\<close>. A null expiry is falsy and skips it. A stored
  expiry is the aware datetime that the account was loaded with, and the check compares it
  with the naive \<open>datetime.utcnow()\<close>. The second is the dispatch on the provider.
\<close>

definition refresh_if_expired ::
  "env \<Rightarrow> email_account \<Rightarrow> session \<Rightarrow> error + email_account \<times> session" where
  "refresh_if_expired env account db =
     (case token_expiry account of
        None \<Rightarrow> Inr (account, db)
      | Some expiry \<Rightarrow>
          (case datetime_less (expiry, True) (utcnow_check env, False) of
             Inl e \<Rightarrow> Inl e
           | Inr expired \<Rightarrow>
               if expired then Inr (refresh_token env account db)
               else Inr (account, db)))"

definition sync_provider_account ::
  "env \<Rightarrow> email_account \<Rightarrow> session \<Rightarrow> error \<times> session + email_account \<times> session" where
  "sync_provider_account env account db =
     (case acc_provider account of
        GMAIL \<Rightarrow> sync_gmail_account env account db
      | OUTLOOK \<Rightarrow> sync_outlook_account env account db)"

text \<open>
  \<open>async with AsyncSessionLocal() as db\<close> opens a session on the database \<open>s\<close>; what the
  database holds afterwards is \<open>committed\<close> of the returned session.
\<close>

definition sync_account_async :: "env \<Rightarrow> nat \<Rightarrow> store \<Rightarrow> outcome \<times> session" where
  "sync_account_async env account_id s =
     (let db = AsyncSessionLocal s in
      (case scalar_one_or_none (filter (\<lambda>a. acc_id a = account_id) (accounts s)) of
         Inl e \<Rightarrow> except_handler e db
       | Inr None \<Rightarrow> (Skipped ''account not found or inactive'', db)
       | Inr (Some account) \<Rightarrow>
           if \<not> is_active account then (Skipped ''account not found or inactive'', db)
           else
             (case refresh_if_expired env account db of
                Inl e \<Rightarrow> except_handler e db
              | Inr (account1, db1) \<Rightarrow>
                  (case sync_provider_account env account1 db1 of
                     Inl (e, db2) \<Rightarrow> except_handler e db2
                   | Inr (account2, db2) \<Rightarrow>
                       (Success account_id,
                        commit (account2\<lparr>last_synced_at := Some (utcnow_synced env)\<rparr>) db2)))))"

text \<open>The Celery task runs the coroutine to completion and returns what it returns.\<close>

definition sync_account_task :: "env \<Rightarrow> celery_task \<Rightarrow> nat \<Rightarrow> store \<Rightarrow> outcome \<times> session" where
  "sync_account_task env self account_id s = sync_account_async env account_id s"

section \<open>Observations on stores and traces\<close>

text \<open>The provider calls of a trace, in order, and the states its commits made durable.\<close>

fun is_provider_call :: "event \<Rightarrow> bool" where
  "is_provider_call (RefreshCall p r) = True"
| "is_provider_call (FetchCall p tok c) = True"
| "is_provider_call (Commit s) = False"
| "is_provider_call Rollback = False"

definition provider_calls :: "event list \<Rightarrow> event list" where
  "provider_calls evs = filter is_provider_call evs"

fun commit_states :: "event list \<Rightarrow> store list" where
  "commit_states [] = []"
| "commit_states (Commit s # evs) = s # commit_states evs"
| "commit_states (RefreshCall p r # evs) = commit_states evs"
| "commit_states (FetchCall p tok c # evs) = commit_states evs"
| "commit_states (Rollback # evs) = commit_states evs"

text \<open>
  What one batch writes: the three message tables and the cursor of the account.
\<close>

definition batch_view ::
  "nat \<Rightarrow> store \<Rightarrow>
     thread list \<times> message_row list \<times> attachment_row list \<times> (string \<times> string) list option list" where
  "batch_view account_id s =
     (threads s, messages s, attachments s,
      map sync_state (filter (\<lambda>a. acc_id a = account_id) (accounts s)))"

text \<open>The cursor an account hands to its adapter.\<close>

definition cursor_of :: "email_account \<Rightarrow> string option" where
  "cursor_of account =
     map_of (get_default (sync_state account) [])
       (case acc_provider account of GMAIL \<Rightarrow> ''history_id'' | OUTLOOK \<Rightarrow> ''delta_link'')"

text \<open>
  A thread row and a later version of it: the same thread, with a last-message timestamp
  that is not earlier (a null timestamp is below every other). A later version of the
  thread table keeps every row in its place and may have more rows.
\<close>

definition thread_advanced :: "thread \<Rightarrow> thread \<Rightarrow> bool" where
  "thread_advanced t t' \<longleftrightarrow>
     t_id t' = t_id t \<and> t_account_id t' = t_account_id t \<and>
     t_provider_thread_id t' = t_provider_thread_id t \<and>
     t_last_message_at t \<le> t_last_message_at t'"

definition threads_advanced :: "thread list \<Rightarrow> thread list \<Rightarrow> bool" where
  "threads_advanced ts ts' \<longleftrightarrow>
     length ts \<le> length ts' \<and> list_all2 thread_advanced ts (take (length ts) ts')"

text \<open>
  The provider hands out one fixed record set: every Gmail fetch is a full fetch of
  \<open>graws\<close>, every Outlook fetch returns \<open>oraws\<close>.
\<close>

definition provider_feeds :: "env \<Rightarrow> gmail_message list \<Rightarrow> outlook_message list \<Rightarrow> bool" where
  "provider_feeds env graws oraws \<longleftrightarrow>
     (\<forall>tok n c. \<exists>h. gmail_fetch_messages env tok n c = Inr (FullResult graws h)) \<and>
     (\<forall>tok n c. \<exists>r. outlook_fetch_messages env tok n c = Inr r \<and> of_messages r = oraws)"

text \<open>
  What a provider sync that returns has done to the session's view \<open>w0\<close>: a Gmail full
  fetch or an Outlook fetch ran the loop over the fetched records and ended in \<open>w\<close>; a
  Gmail history fetch left the view as it was.
\<close>

definition ingested :: "env \<Rightarrow> email_account \<Rightarrow> store \<Rightarrow> store \<Rightarrow> bool" where
  "ingested env a w0 w \<longleftrightarrow>
     (acc_provider a = GMAIL \<and>
        ((\<exists>msgs h. gmail_fetch_messages env (access_token a) (MAX_MESSAGES_PER_ACCOUNT env)
                      (cursor_of a) = Inr (FullResult msgs h) \<and>
                   process_gmail_messages (lib env) (utcnow_parse env) 0 msgs a w0 = Inr w) \<or>
         (\<exists>h. gmail_fetch_messages env (access_token a) (MAX_MESSAGES_PER_ACCOUNT env)
                 (cursor_of a) = Inr (HistoryResult h) \<and> w = w0))) \<or>
     (acc_provider a = OUTLOOK \<and>
        (\<exists>r. outlook_fetch_messages env (access_token a) (MAX_MESSAGES_PER_ACCOUNT env)
                (cursor_of a) = Inr r \<and>
              process_outlook_messages (lib env) (utcnow_parse env) 0 (of_messages r) a w0 = Inr w))"

text \<open>
  Every record of the feed that the account's provider hands out parses, under some
  clock reading, to a message id that the store holds.
\<close>

definition fed_stored :: "parse_lib \<Rightarrow> email_account \<Rightarrow> gmail_message list \<Rightarrow> outlook_message list
    \<Rightarrow> store \<Rightarrow> bool" where
  "fed_stored L a graws oraws w \<longleftrightarrow>
     (acc_provider a = GMAIL \<longrightarrow>
        (\<forall>raw\<in>set graws. \<exists>p now. gmail_parse_message L now raw = Inr p
            \<and> p_provider_message_id p \<in> m_provider_message_id ` set (messages w))) \<and>
     (acc_provider a = OUTLOOK \<longrightarrow>
        (\<forall>raw\<in>set oraws. \<exists>p now. outlook_parse_message L now raw = Inr p
            \<and> p_provider_message_id p \<in> m_provider_message_id ` set (messages w)))"

text \<open>
  What a committed state shows of a batch at a glance: how many messages it holds, and the
  cursor and the last-synced time of each account.
\<close>

definition snapshot_summary ::
  "store \<Rightarrow> nat \<times> (string \<times> string) list option list \<times> datetime option list" where
  "snapshot_summary s =
     (length (messages s), map sync_state (accounts s), map last_synced_at (accounts s))"

section \<open>Concrete records and environments\<close>

text \<open>
  A stand-in for the three library functions: two RFC 2822 dates, two ISO dates and one
  base64 string are understood, everything else raises. The four dates name the zone UTC,
  so they parse to aware datetimes.
\<close>

definition lib0 :: parse_lib where
  "lib0 =
     \<lparr>parsedate_to_datetime =
        map_of [(''Mon, 01 Jan 2024 10:00:00 +0000'', (1704103200, True)),
                (''Tue, 02 Jan 2024 10:00:00 +0000'', (1704189600, True))],
      fromisoformat = map_of [(''2024-01-01T10:00:00+00:00'', (1704103200, True)),
                              (''2024-01-02T10:00:00+00:00'', (1704189600, True))],
      urlsafe_b64decode = map_of [(''aGVsbG8='', ''hello'')]\<rparr>"

text \<open>A Gmail message with From, Subject and Date headers and no To header.\<close>

definition gmail_msg_no_to :: gmail_message where
  "gmail_msg_no_to =
     \<lparr>gm_id = Some ''m1'', gm_threadId = Some ''t1'',
      gm_payload =
        Some \<lparr>pl_headers = Some [(''From'', ''alice@example.org''),
                                  (''Subject'', ''Hello''),
                                  (''Date'', ''Mon, 01 Jan 2024 10:00:00 +0000'')],
              pl_parts = None,
              pl_body = Some \<lparr>gb_data = Some ''aGVsbG8='', gb_attachmentId = None,
                              gb_size = Some 5\<rparr>\<rparr>,
      gm_snippet = Some ''hello''\<rparr>"

text \<open>Two Outlook messages of one conversation, a day apart.\<close>

definition om1 :: outlook_message where
  "om1 =
     \<lparr>om_id = Some ''o1'', om_conversationId = Some ''c1'',
      om_receivedDateTime = Some ''2024-01-01T10:00:00Z'', om_sentDateTime = None,
      om_toRecipients =
        Some [\<lparr>r_emailAddress = Some \<lparr>ea_address = Some ''bob@example.org''\<rparr>\<rparr>],
      om_ccRecipients = None, om_bccRecipients = None,
      om_from = Some \<lparr>r_emailAddress = Some \<lparr>ea_address = Some ''alice@example.org''\<rparr>\<rparr>,
      om_body = Some \<lparr>ob_contentType = Some ''text'', ob_content = Some ''hello''\<rparr>,
      om_subject = Some ''Hello'', om_bodyPreview = Some ''hello'',
      om_hasAttachments = Some False, om_attachments = None\<rparr>"

definition om2 :: outlook_message where
  "om2 =
     \<lparr>om_id = Some ''o2'', om_conversationId = Some ''c1'',
      om_receivedDateTime = Some ''2024-01-02T10:00:00Z'', om_sentDateTime = None,
      om_toRecipients =
        Some [\<lparr>r_emailAddress = Some \<lparr>ea_address = Some ''alice@example.org''\<rparr>\<rparr>],
      om_ccRecipients = None, om_bccRecipients = None,
      om_from = Some \<lparr>r_emailAddress = Some \<lparr>ea_address = Some ''bob@example.org''\<rparr>\<rparr>,
      om_body = Some \<lparr>ob_contentType = Some ''html'', ob_content = Some ''<p>hi</p>''\<rparr>,
      om_subject = Some ''Re: Hello'', om_bodyPreview = Some ''hi'',
      om_hasAttachments = Some False, om_attachments = None\<rparr>"

text \<open>
  An Outlook account with a refresh token, no stored token expiry and no cursor yet, alone
  in an empty database.
\<close>

definition outlook_account0 :: email_account where
  "outlook_account0 =
     \<lparr>acc_id = 1, acc_provider = OUTLOOK, access_token = Some ''tok1'',
      encrypted_refresh_token = Some ''enc:r1'', token_expiry = None,
      sync_state = None, last_synced_at = None, is_active = True\<rparr>"

definition store0 :: store where
  "store0 = \<lparr>accounts = [outlook_account0], threads = [], messages = [], attachments = []\<rparr>"

text \<open>
  A world in which every provider answers: the clock reads 1704200000 at the expiry check,
  both providers refresh to \<open>tok2\<close> without rotating the refresh token, Gmail has no history
  for any cursor and one inbox message, Outlook answers every request with the page
  \<open>[om1]\<close> and the delta link \<open>dl2\<close>.
\<close>

definition env0 :: env where
  "env0 =
     \<lparr>lib = lib0,
      decrypt = (\<lambda>c. if c = ''enc:r1'' then Inr ''r1'' else Inl InvalidToken),
      encrypt = (\<lambda>p. ''enc:'' @ p),
      gmail_refresh_access_token =
        (\<lambda>r. Inr \<lparr>tr_access_token = Some ''tok2'', tr_expires_in = Some 3600,
                   tr_refresh_token = None\<rparr>),
      outlook_refresh_access_token =
        (\<lambda>r. Inr \<lparr>tr_access_token = Some ''tok2'', tr_expires_in = Some 3600,
                   tr_refresh_token = None\<rparr>),
      gmail_history_list = (\<lambda>tok h. Inl (HTTPStatusError 404)),
      gmail_messages_list = (\<lambda>tok n. Inr (Some [''m1''])),
      gmail_messages_get = (\<lambda>tok i. Inr gmail_msg_no_to),
      gmail_get_profile = (\<lambda>tok. Inr (Some ''h2'')),
      outlook_get =
        (\<lambda>req tok. Inr \<lparr>op_value = Some [om1], op_deltaLink = Some ''dl2'',
                         op_nextLink = None\<rparr>),
      MAX_MESSAGES_PER_ACCOUNT = 50,
      utcnow_check = 1704200000,
      utcnow_refresh = 1704200001,
      utcnow_parse = (\<lambda>k. 1704200002 + int k),
      utcnow_synced = 1704200010\<rparr>"

text \<open>The same world a day later, and one sync in each.\<close>

definition env1 :: env where
  "env1 = env0\<lparr>utcnow_check := 1704286400, utcnow_refresh := 1704286401,
               utcnow_parse := (\<lambda>k. 1704286402 + int k), utcnow_synced := 1704286410\<rparr>"

definition first_run :: "outcome \<times> session" where
  "first_run = sync_account_async env0 1 store0"

definition second_run :: "outcome \<times> session" where
  "second_run = sync_account_async env1 1 (committed (snd first_run))"

text \<open>
  A database in which the message \<open>om1\<close> is stored: an account with a token that
  expires at 1704203601 and the cursor \<open>dl2\<close>, one thread, one message. \<open>store2\<close> is
  the same database with the reply \<open>om2\<close> ingested.
\<close>

definition outlook_account1 :: email_account where
  "outlook_account1 =
     \<lparr>acc_id = 1, acc_provider = OUTLOOK, access_token = Some ''tok2'',
      encrypted_refresh_token = Some ''enc:r1'', token_expiry = Some 1704203601,
      sync_state = Some [(''delta_link'', ''dl2'')],
      last_synced_at = Some 1704200010, is_active = True\<rparr>"

definition message_o1 :: message_row where
  "message_o1 =
     \<lparr>m_id = 1, m_thread_id = 1, m_provider_message_id = ''o1'',
      m_from_addr = ''alice@example.org'', m_to_addrs = [''bob@example.org''],
      m_cc_addrs = [], m_bcc_addrs = [], m_subject = ''Hello'', m_date = 1704103200,
      m_body_text = ''hello'', m_body_html = [], m_has_attachments = False,
      m_is_read = False\<rparr>"

definition message_o2 :: message_row where
  "message_o2 =
     \<lparr>m_id = 2, m_thread_id = 1, m_provider_message_id = ''o2'',
      m_from_addr = ''bob@example.org'', m_to_addrs = [''alice@example.org''],
      m_cc_addrs = [], m_bcc_addrs = [], m_subject = ''Re: Hello'', m_date = 1704189600,
      m_body_text = [], m_body_html = ''<p>hi</p>'', m_has_attachments = False,
      m_is_read = False\<rparr>"

definition store1 :: store where
  "store1 =
     \<lparr>accounts = [outlook_account1],
      threads = [\<lparr>t_id = 1, t_account_id = 1, t_provider_thread_id = ''c1'',
                  t_subject = ''Hello'', t_snippet = ''hello'',
                  t_last_message_at = Some 1704103200, t_last_message_at_aware = True\<rparr>],
      messages = [message_o1],
      attachments = []\<rparr>"

definition store2 :: store where
  "store2 =
     \<lparr>accounts = [outlook_account1],
      threads = [\<lparr>t_id = 1, t_account_id = 1, t_provider_thread_id = ''c1'',
                  t_subject = ''Hello'', t_snippet = ''hi'',
                  t_last_message_at = Some 1704189600, t_last_message_at_aware = True\<rparr>],
      messages = [message_o1, message_o2],
      attachments = []\<rparr>"

text \<open>The day after, Outlook answers the stored delta link with the reply alone.\<close>

definition env_outlook_reply :: env where
  "env_outlook_reply =
     env1\<lparr>outlook_get :=
            (\<lambda>req tok. Inr \<lparr>op_value = Some [om2], op_deltaLink = Some ''dl3'',
                             op_nextLink = None\<rparr>)\<rparr>"

text \<open>
  The Gmail side of the same story: an account with a token that expires at 1704300000 and
  the stored history id \<open>h1\<close>, its thread \<open>t1\<close> with the message \<open>m1\<close>, and a reply \<open>m2\<close> in that thread
  which Gmail reports in the history since \<open>h1\<close>.
\<close>

definition gmail_msg2 :: gmail_message where
  "gmail_msg2 =
     \<lparr>gm_id = Some ''m2'', gm_threadId = Some ''t1'',
      gm_payload =
        Some \<lparr>pl_headers = Some [(''From'', ''bob@example.org''),
                                  (''To'', ''alice@example.org''),
                                  (''Subject'', ''Re: Hello''),
                                  (''Date'', ''Tue, 02 Jan 2024 10:00:00 +0000'')],
              pl_parts = None,
              pl_body = Some \<lparr>gb_data = Some ''aGVsbG8='', gb_attachmentId = None,
                              gb_size = Some 5\<rparr>\<rparr>,
      gm_snippet = Some ''hi''\<rparr>"

definition gmail_account_b :: email_account where
  "gmail_account_b =
     \<lparr>acc_id = 1, acc_provider = GMAIL, access_token = Some ''gtok1'',
      encrypted_refresh_token = Some ''enc:r1'', token_expiry = Some 1704300000,
      sync_state = Some [(''history_id'', ''h1'')],
      last_synced_at = Some 1704150000, is_active = True\<rparr>"

definition message_m1 :: message_row where
  "message_m1 =
     \<lparr>m_id = 1, m_thread_id = 1, m_provider_message_id = ''m1'',
      m_from_addr = ''alice@example.org'', m_to_addrs = [''''],
      m_cc_addrs = [], m_bcc_addrs = [], m_subject = ''Hello'', m_date = 1704103200,
      m_body_text = ''hello'', m_body_html = [], m_has_attachments = False,
      m_is_read = False\<rparr>"

definition message_m2 :: message_row where
  "message_m2 =
     \<lparr>m_id = 2, m_thread_id = 1, m_provider_message_id = ''m2'',
      m_from_addr = ''bob@example.org'', m_to_addrs = [''alice@example.org''],
      m_cc_addrs = [], m_bcc_addrs = [], m_subject = ''Re: Hello'', m_date = 1704189600,
      m_body_text = ''hello'', m_body_html = [], m_has_attachments = False,
      m_is_read = False\<rparr>"

definition store_gmail_b :: store where
  "store_gmail_b =
     \<lparr>accounts = [gmail_account_b],
      threads = [\<lparr>t_id = 1, t_account_id = 1, t_provider_thread_id = ''t1'',
                  t_subject = ''Hello'', t_snippet = ''hello'',
                  t_last_message_at = Some 1704103200, t_last_message_at_aware = True\<rparr>],
      messages = [message_m1],
      attachments = []\<rparr>"

definition store_gmail_b2 :: store where
  "store_gmail_b2 =
     \<lparr>accounts = [gmail_account_b],
      threads = [\<lparr>t_id = 1, t_account_id = 1, t_provider_thread_id = ''t1'',
                  t_subject = ''Hello'', t_snippet = ''hi'',
                  t_last_message_at = Some 1704189600, t_last_message_at_aware = True\<rparr>],
      messages = [message_m1, message_m2],
      attachments = []\<rparr>"

definition env_gmail_reply :: env where
  "env_gmail_reply =
     env0\<lparr>gmail_history_list :=
            (\<lambda>tok h. Inr \<lparr>gh_history = Some [\<lparr>hr_messagesAdded = Some [gmail_msg2]\<rparr>]\<rparr>),
          gmail_messages_list := (\<lambda>tok n. Inr (Some [''m2''])),
          gmail_messages_get := (\<lambda>tok i. Inr gmail_msg2)\<rparr>"

text \<open>
  Worlds in which one thing goes wrong: Outlook answers every request with 503; Outlook
  rejects the refresh token with 400 (invalid grant); Outlook rejects a stored delta link
  with 410 and serves the inbox query.
\<close>

definition env_fetch_fails :: env where
  "env_fetch_fails = env0\<lparr>outlook_get := (\<lambda>req tok. Inl (HTTPStatusError 503))\<rparr>"


definition env_stale_cursor :: env where
  "env_stale_cursor =
     env0\<lparr>outlook_get :=
            (\<lambda>req tok. case req of
                          DeltaLink l \<Rightarrow> Inl (HTTPStatusError 410)
                        | InboxDelta n \<Rightarrow>
                            Inr \<lparr>op_value = Some [om1], op_deltaLink = Some ''dl2'',
                                 op_nextLink = None\<rparr>)\<rparr>"


definition store_no_refresh_token :: store where
  "store_no_refresh_token =
     store0\<lparr>accounts := [outlook_account0\<lparr>token_expiry := Some 1704100000,
                                            encrypted_refresh_token := None\<rparr>]\<rparr>"

definition without_expiry :: "store \<Rightarrow> store" where
  "without_expiry s = s\<lparr>accounts := map (\<lambda>a. a\<lparr>token_expiry := None\<rparr>) (accounts s)\<rparr>"



section \<open>Properties of the parsers\<close>

text \<open>
  Claim C8. \<open>ParseRecord\<close> is to default every missing optional field to the empty string
  or the empty list, a missing To or Cc header giving an empty recipient list. The Gmail
  parser does so for Cc, which it guards with \<open>if headers.get('Cc')\<close>, but not for To: it
  splits the default \<open>''\<close> at commas, and the record without a To header gets the
  recipient list \<open>['']\<close>, one empty address, whatever the clock reads.
\<close>

theorem gmail_parse_missing_to_header:
  "gmail_parse_message lib0 now gmail_msg_no_to =
     Inr \<lparr>p_provider_message_id = ''m1'', p_thread_id = ''t1'',
          p_from_addr = ''alice@example.org'',
          p_to_addrs = [''''], p_cc_addrs = [], p_bcc_addrs = None,
          p_subject = ''Hello'', p_date = 1704103200, p_date_aware = True,
          p_body_text = ''hello'', p_body_html = '''', p_snippet = ''hello'',
          p_attachments = [], p_has_attachments = False\<rparr>"
  by (simp add: gmail_parse_message_def gmail_extract_body_def gmail_extract_attachments_def
      lib0_def gmail_msg_no_to_def header_get_def)

text \<open>The definitions that evaluating a sync on concrete data unfolds.\<close>

lemmas eval_sync =
  sync_account_async_def AsyncSessionLocal_def as_stored_def refresh_if_expired_def
  datetime_less_def refresh_token_def refresh_failed_def
  sync_provider_account_def sync_outlook_account_def sync_gmail_account_def
  outlook_fetch_messages_def gmail_fetch_messages_def gmail_full_sync_def
  process_outlook_message_def process_gmail_message_def
  outlook_parse_message_def gmail_parse_message_def gmail_extract_body_def
  gmail_extract_attachments_def header_get_def
  store_parsed_def get_or_create_thread_def commit_def rollback_def set_account_def
  record_event_def next_id_def except_handler_def sync_account_async_self_def
  outlook_attachment_entry_def Let_def

section \<open>Queries and the dedup check\<close>

lemma scalar_one_or_none_Some: "scalar_one_or_none xs = Inr (Some x) \<Longrightarrow> xs = [x]"
  by (cases xs rule: scalar_one_or_none.cases) auto

lemma scalar_one_or_none_None: "scalar_one_or_none xs = Inr None \<Longrightarrow> xs = []"
  by (cases xs rule: scalar_one_or_none.cases) auto

lemma filter_key_distinct:
  "distinct (map f xs) \<Longrightarrow> k \<in> f ` set xs \<Longrightarrow> \<exists>x. filter (\<lambda>m. f m = k) xs = [x]"
proof (induction xs)
  case Nil
  then show ?case by simp
next
  case (Cons a xs)
  show ?case
  proof (cases "f a = k")
    case True
    with Cons.prems have "k \<notin> f ` set xs" by simp
    then have "\<forall>x\<in>set xs. f x \<noteq> k" by blast
    then have "filter (\<lambda>m. f m = k) xs = []"
      by (simp add: filter_empty_conv)
    with True show ?thesis by simp
  next
    case False
    with Cons show ?thesis by auto
  qed
qed

lemma filter_key_count:
  "distinct (map f xs) \<Longrightarrow> k \<in> f ` set xs \<Longrightarrow> length (filter (\<lambda>m. f m = k) xs) = 1"
  using filter_key_distinct [of f xs k] by auto

lemma store_parsed_existing:
  assumes "distinct (map m_provider_message_id (messages w))"
    and "p_provider_message_id p \<in> m_provider_message_id ` set (messages w)"
  shows "store_parsed p a w = Inr w"
proof -
  from filter_key_distinct [OF assms] obtain x where
    "filter (\<lambda>m. m_provider_message_id m = p_provider_message_id p) (messages w) = [x]" ..
  then show ?thesis by (simp add: store_parsed_def)
qed

lemma store_parsed_messages:
  assumes "store_parsed p a w = Inr w'"
  shows "messages w' = messages w \<and> p_provider_message_id p \<in> m_provider_message_id ` set (messages w)
         \<or> (\<exists>m. messages w' = messages w @ [m] \<and> m_provider_message_id m = p_provider_message_id p
              \<and> p_provider_message_id p \<notin> m_provider_message_id ` set (messages w))"
proof (cases "scalar_one_or_none
             (filter (\<lambda>m. m_provider_message_id m = p_provider_message_id p) (messages w))")
  case (Inl e)
  with assms show ?thesis by (simp add: store_parsed_def)
next
  case (Inr r)
  show ?thesis
  proof (cases r)
    case None
    with Inr have "filter (\<lambda>m. m_provider_message_id m = p_provider_message_id p) (messages w) = []"
      by (simp add: scalar_one_or_none_None)
    then have "p_provider_message_id p \<notin> m_provider_message_id ` set (messages w)"
      by (auto simp: filter_empty_conv)
    with assms Inr None show ?thesis
      by (auto simp: store_parsed_def Let_def split: sum.splits)
  next
    case (Some x)
    with Inr have "filter (\<lambda>m. m_provider_message_id m = p_provider_message_id p) (messages w) = [x]"
      by (simp add: scalar_one_or_none_Some)
    then have "x \<in> set (filter (\<lambda>m. m_provider_message_id m = p_provider_message_id p) (messages w))"
      by simp
    then have "p_provider_message_id p \<in> m_provider_message_id ` set (messages w)"
      by force
    with assms Inr Some show ?thesis by (simp add: store_parsed_def)
  qed
qed

lemma gmail_parse_message_Inr:
  assumes "gmail_parse_message L now m = Inr p"
  shows "gm_id m = Some (p_provider_message_id p) \<and>
         (\<exists>p'. gmail_parse_message L now' m = Inr p' \<and>
               p_provider_message_id p' = p_provider_message_id p)"
proof (cases "gm_payload m")
  case None
  with assms show ?thesis by (simp add: gmail_parse_message_def)
next
  case (Some payload)
  show ?thesis
  proof (cases "gmail_extract_body L payload")
    case (Inl e)
    with assms Some show ?thesis by (simp add: gmail_parse_message_def)
  next
    case body: (Inr texts)
    obtain body_text body_html where texts: "texts = (body_text, body_html)" by (cases texts)
    show ?thesis
    proof (cases "gmail_extract_attachments payload")
      case (Inl e)
      with assms Some body texts show ?thesis by (simp add: gmail_parse_message_def)
    next
      case atts: (Inr attachments)
      show ?thesis
      proof (cases "gm_id m")
        case None
        with assms Some body texts atts show ?thesis by (simp add: gmail_parse_message_def)
      next
        case mid: (Some mid)
        show ?thesis
        proof (cases "gm_threadId m")
          case None
          with assms Some body texts atts mid show ?thesis
            by (simp add: gmail_parse_message_def)
        next
          case tid: (Some tid)
          from assms Some body texts atts mid tid
          have "p_provider_message_id p = mid"
            by (auto simp: gmail_parse_message_def Let_def)
          with Some body texts atts mid tid show ?thesis
            by (simp add: gmail_parse_message_def Let_def)
        qed
      qed
    qed
  qed
qed

lemma gmail_parse_id:
  "gmail_parse_message L now m = Inr p \<Longrightarrow> gm_id m = Some (p_provider_message_id p)"
  using gmail_parse_message_Inr [of L now m p] by simp

lemma gmail_parse_clock:
  "gmail_parse_message L now m = Inr p \<Longrightarrow>
     \<exists>p'. gmail_parse_message L now' m = Inr p' \<and> p_provider_message_id p' = p_provider_message_id p"
  using gmail_parse_message_Inr [of L now m p now'] by simp

lemma outlook_parse_message_Inr:
  assumes "outlook_parse_message L now m = Inr p"
  shows "om_id m = Some (p_provider_message_id p) \<and>
         (\<exists>p'. outlook_parse_message L now' m = Inr p' \<and>
               p_provider_message_id p' = p_provider_message_id p)"
proof (cases "recipient_addresses (get_default (om_toRecipients m) [])")
  case (Inl e)
  with assms show ?thesis by (simp add: outlook_parse_message_def Let_def)
next
  case to: (Inr to_addrs)
  show ?thesis
  proof (cases "recipient_addresses (get_default (om_ccRecipients m) [])")
    case (Inl e)
    with assms to show ?thesis by (simp add: outlook_parse_message_def Let_def)
  next
    case cc: (Inr cc_addrs)
    show ?thesis
    proof (cases "recipient_addresses (get_default (om_bccRecipients m) [])")
      case (Inl e)
      with assms to cc show ?thesis by (simp add: outlook_parse_message_def Let_def)
    next
      case bcc: (Inr bcc_addrs)
      show ?thesis
      proof (cases "om_id m")
        case None
        with assms to cc bcc show ?thesis by (simp add: outlook_parse_message_def Let_def)
      next
        case mid: (Some mid)
        from assms to cc bcc mid have "p_provider_message_id p = mid"
          by (auto simp: outlook_parse_message_def Let_def)
        with to cc bcc mid show ?thesis
          by (simp add: outlook_parse_message_def Let_def)
      qed
    qed
  qed
qed

lemma outlook_parse_id:
  "outlook_parse_message L now m = Inr p \<Longrightarrow> om_id m = Some (p_provider_message_id p)"
  using outlook_parse_message_Inr [of L now m p] by simp

lemma outlook_parse_clock:
  "outlook_parse_message L now m = Inr p \<Longrightarrow>
     \<exists>p'. outlook_parse_message L now' m = Inr p' \<and> p_provider_message_id p' = p_provider_message_id p"
  using outlook_parse_message_Inr [of L now m p now'] by simp

lemma store_parsed_distinct:
  assumes "store_parsed p a w = Inr w'"
    and "distinct (map m_provider_message_id (messages w))"
  shows "distinct (map m_provider_message_id (messages w'))
         \<and> m_provider_message_id ` set (messages w) \<subseteq> m_provider_message_id ` set (messages w')
         \<and> p_provider_message_id p \<in> m_provider_message_id ` set (messages w')"
  using store_parsed_messages [OF assms(1)] assms(2) by auto

lemma process_gmail_messages_ids:
  "process_gmail_messages L clock k raws a w = Inr w1 \<Longrightarrow>
   distinct (map m_provider_message_id (messages w)) \<Longrightarrow>
     distinct (map m_provider_message_id (messages w1))
     \<and> m_provider_message_id ` set (messages w) \<subseteq> m_provider_message_id ` set (messages w1)
     \<and> (\<forall>raw\<in>set raws. \<exists>p now. gmail_parse_message L now raw = Inr p
            \<and> p_provider_message_id p \<in> m_provider_message_id ` set (messages w1))"
proof (induction raws arbitrary: k w)
  case Nil
  then show ?case by simp
next
  case (Cons raw raws)
  from Cons.prems(1) obtain p w' where
    p: "gmail_parse_message L (clock k) raw = Inr p"
    and s: "store_parsed p a w = Inr w'"
    and r: "process_gmail_messages L clock (Suc k) raws a w' = Inr w1"
    by (auto simp: process_gmail_message_def split: sum.splits)
  note d = store_parsed_distinct [OF s Cons.prems(2)]
  from d have dw': "distinct (map m_provider_message_id (messages w'))" by simp
  note ih = Cons.IH [OF r dw']
  from d ih have "p_provider_message_id p \<in> m_provider_message_id ` set (messages w1)"
    by blast
  with p have "\<exists>p now. gmail_parse_message L now raw = Inr p
            \<and> p_provider_message_id p \<in> m_provider_message_id ` set (messages w1)"
    by blast
  moreover from d ih
  have "m_provider_message_id ` set (messages w) \<subseteq> m_provider_message_id ` set (messages w1)"
    by blast
  ultimately show ?case using ih by simp
qed

lemma process_gmail_messages_noop:
  "distinct (map m_provider_message_id (messages w1)) \<Longrightarrow>
   \<forall>raw\<in>set raws. \<exists>p now. gmail_parse_message L now raw = Inr p
            \<and> p_provider_message_id p \<in> m_provider_message_id ` set (messages w1) \<Longrightarrow>
   process_gmail_messages L clock k raws a w1 = Inr w1"
proof (induction raws arbitrary: k)
  case Nil
  then show ?case by simp
next
  case (Cons raw raws)
  from Cons.prems(2) obtain p now where
    p: "gmail_parse_message L now raw = Inr p"
    and m: "p_provider_message_id p \<in> m_provider_message_id ` set (messages w1)"
    by auto
  from gmail_parse_clock [OF p, of "clock k"] obtain p' where
    p': "gmail_parse_message L (clock k) raw = Inr p'"
    and e: "p_provider_message_id p' = p_provider_message_id p"
    by blast
  from m e have "p_provider_message_id p' \<in> m_provider_message_id ` set (messages w1)"
    by simp
  from store_parsed_existing [OF Cons.prems(1) this]
  have "process_gmail_message L (clock k) raw a w1 = Inr w1"
    by (simp add: process_gmail_message_def p')
  moreover have "process_gmail_messages L clock (Suc k) raws a w1 = Inr w1"
    using Cons.IH [OF Cons.prems(1)] Cons.prems(2) by simp
  ultimately show ?case by simp
qed

lemma gmail_row_count:
  assumes "distinct (map m_provider_message_id (messages w1))"
    and "gmail_parse_message L now raw = Inr p"
    and "p_provider_message_id p \<in> m_provider_message_id ` set (messages w1)"
  shows "length (filter (\<lambda>m. Some (m_provider_message_id m) = gm_id raw) (messages w1)) = 1"
proof -
  have "gm_id raw = Some (p_provider_message_id p)" using assms(2) by (rule gmail_parse_id)
  then have "filter (\<lambda>m. Some (m_provider_message_id m) = gm_id raw) (messages w1)
      = filter (\<lambda>m. m_provider_message_id m = p_provider_message_id p) (messages w1)"
    by simp
  with filter_key_count [OF assms(1) assms(3)] show ?thesis by simp
qed
section \<open>Sessions, commits and the shape of a sync\<close>

lemma set_account_tables [simp]:
  "threads (set_account a s) = threads s"
  "messages (set_account a s) = messages s"
  "attachments (set_account a s) = attachments s"
  by (simp_all add: set_account_def)

lemma as_stored_tables [simp]:
  "accounts (as_stored s) = accounts s"
  "threads (as_stored s) = map (\<lambda>t. t\<lparr>t_last_message_at_aware := True\<rparr>) (threads s)"
  "messages (as_stored s) = messages s"
  "attachments (as_stored s) = attachments s"
  by (simp_all add: as_stored_def)

lemma as_stored_idem [simp]: "as_stored (as_stored s) = as_stored s"
  by (simp add: as_stored_def o_def)

lemma as_stored_set_account: "as_stored (set_account a s) = set_account a (as_stored s)"
  by (simp add: as_stored_def set_account_def)

lemma filter_set_account:
  assumes "acc_id a = aid"
  shows "filter (\<lambda>b. acc_id b = aid) (accounts (set_account a s))
           = map (\<lambda>b. a) (filter (\<lambda>b. acc_id b = aid) (accounts s))"
proof -
  have "filter (\<lambda>b. acc_id b = aid) (map (\<lambda>b. if acc_id b = aid then a else b) xs)
           = map (\<lambda>b. a) (filter (\<lambda>b. acc_id b = aid) xs)" for xs
    using assms by (induction xs) auto
  with assms show ?thesis by (simp add: set_account_def)
qed

lemma AsyncSessionLocal_sel [simp]:
  "committed (AsyncSessionLocal s) = s"
  "working (AsyncSessionLocal s) = as_stored s"
  "trace (AsyncSessionLocal s) = []"
  by (simp_all add: AsyncSessionLocal_def)

lemma commit_sel [simp]:
  "committed (commit a db) = as_stored (set_account a (working db))"
  "working (commit a db) = as_stored (set_account a (working db))"
  "trace (commit a db) = trace db @ [Commit (as_stored (set_account a (working db)))]"
  by (simp_all add: commit_def Let_def)

lemma rollback_sel [simp]:
  "committed (rollback db) = committed db"
  "working (rollback db) = committed db"
  "trace (rollback db) = trace db @ [Rollback]"
  by (simp_all add: rollback_def)

lemma record_event_sel [simp]:
  "committed (record_event ev db) = committed db"
  "working (record_event ev db) = working db"
  "trace (record_event ev db) = trace db @ [ev]"
  by (simp_all add: record_event_def)

lemma commit_states_append [simp]:
  "commit_states (evs @ evs') = commit_states evs @ commit_states evs'"
  by (induction evs rule: commit_states.induct) simp_all

lemma provider_calls_append [simp]:
  "provider_calls (evs @ evs') = provider_calls evs @ provider_calls evs'"
  by (simp add: provider_calls_def)

lemma provider_calls_simps [simp]:
  "provider_calls [] = []"
  "provider_calls (RefreshCall p r # evs) = RefreshCall p r # provider_calls evs"
  "provider_calls (FetchCall p tok c # evs) = FetchCall p tok c # provider_calls evs"
  "provider_calls (Commit s # evs) = provider_calls evs"
  "provider_calls (Rollback # evs) = provider_calls evs"
  by (simp_all add: provider_calls_def)

lemma fold_pass: "fold (\<lambda>x w. w) xs v = v"
  by (induction xs) simp_all

lemma process_gmail_history_id [simp]: "process_gmail_history h w = w"
proof -
  have "fold (\<lambda>history_record w1.
             fold (\<lambda>msg w2. w2) (get_default (hr_messagesAdded history_record) []) w1) rs v = v"
    for rs :: "gmail_history_record list" and v :: store
    by (induction rs) (simp_all add: fold_pass)
  then show ?thesis by (simp add: process_gmail_history_def)
qed

lemma commit_working_same [simp]: "commit a (db\<lparr>working := w\<rparr>) =
    \<lparr>committed = as_stored (set_account a w), working = as_stored (set_account a w),
     trace = trace db @ [Commit (as_stored (set_account a w))]\<rparr>"
  by (simp add: commit_def Let_def)

text \<open>
  The expiry check: it passes an account without a stored expiry on untouched, and raises
  on every stored expiry, before \<open>refresh_token\<close> is called.
\<close>

lemma refresh_if_expired_None:
  "token_expiry account = None \<Longrightarrow> refresh_if_expired env account db = Inr (account, db)"
  by (simp add: refresh_if_expired_def)

lemma refresh_if_expired_Some:
  "token_expiry account = Some e \<Longrightarrow> refresh_if_expired env account db = Inl TypeError"
  by (simp add: refresh_if_expired_def datetime_less_def)

lemma sync_provider_account_Inl:
  assumes "sync_provider_account env a db = Inl (e, db2)"
  shows "db2 = record_event (FetchCall (acc_provider a) (access_token a) (cursor_of a)) db"
  using assms
  by (auto simp: sync_provider_account_def sync_gmail_account_def sync_outlook_account_def
        cursor_of_def Let_def
      split: email_provider.splits sum.splits gmail_fetch_result.splits)

lemma sync_provider_account_Inr:
  assumes "sync_provider_account env a db = Inr (a2, db2)"
  shows "\<exists>w. ingested env a (working db) w \<and>
             db2 = commit a2
                    ((record_event (FetchCall (acc_provider a) (access_token a) (cursor_of a)) db)
                       \<lparr>working := w\<rparr>) \<and>
             acc_id a2 = acc_id a \<and> acc_provider a2 = acc_provider a \<and>
             is_active a2 = is_active a \<and> access_token a2 = access_token a \<and>
             token_expiry a2 = token_expiry a \<and>
             encrypted_refresh_token a2 = encrypted_refresh_token a \<and>
             last_synced_at a2 = last_synced_at a"
  using assms
  by (auto simp: sync_provider_account_def sync_gmail_account_def sync_outlook_account_def
        cursor_of_def Let_def ingested_def
      split: email_provider.splits sum.splits gmail_fetch_result.splits if_splits)

lemma sync_account_async_found:
  assumes "filter (\<lambda>a. acc_id a = aid) (accounts s) = [account]" and "is_active account"
    and "token_expiry account = None"
  shows "sync_account_async env aid s =
          (case sync_provider_account env account (AsyncSessionLocal s) of
             Inl (e, db2) \<Rightarrow> (Raised (NameError ''self''), rollback db2)
           | Inr (a2, db2) \<Rightarrow>
               (Success aid, commit (a2\<lparr>last_synced_at := Some (utcnow_synced env)\<rparr>) db2))"
  using assms
  by (simp add: sync_account_async_def refresh_if_expired_None except_handler_def
      sync_account_async_self_def split: sum.splits prod.splits)

lemma sync_account_async_expiry:
  assumes "filter (\<lambda>a. acc_id a = aid) (accounts s) = [account]" and "is_active account"
    and "token_expiry account = Some e"
  shows "sync_account_async env aid s =
           (Raised (NameError ''self''), rollback (AsyncSessionLocal s))"
  using assms
  by (simp add: sync_account_async_def refresh_if_expired_Some except_handler_def
      sync_account_async_self_def)

lemma sync_account_async_not_found:
  assumes "filter (\<lambda>a. acc_id a = aid) (accounts s) = []"
  shows "sync_account_async env aid s =
           (Skipped ''account not found or inactive'', AsyncSessionLocal s)"
  using assms by (simp add: sync_account_async_def)

lemma sync_account_async_inactive:
  assumes "filter (\<lambda>a. acc_id a = aid) (accounts s) = [account]" and "\<not> is_active account"
  shows "sync_account_async env aid s =
           (Skipped ''account not found or inactive'', AsyncSessionLocal s)"
  using assms by (simp add: sync_account_async_def)

lemma sync_account_async_multiple:
  assumes "filter (\<lambda>a. acc_id a = aid) (accounts s) = x # y # zs"
  shows "sync_account_async env aid s =
           (Raised (NameError ''self''), rollback (AsyncSessionLocal s))"
  using assms
  by (simp add: sync_account_async_def except_handler_def sync_account_async_self_def)

section \<open>What the ingestion loops store\<close>

lemma process_outlook_messages_ids:
  "process_outlook_messages L clock k raws a w = Inr w1 \<Longrightarrow>
   distinct (map m_provider_message_id (messages w)) \<Longrightarrow>
     distinct (map m_provider_message_id (messages w1))
     \<and> m_provider_message_id ` set (messages w) \<subseteq> m_provider_message_id ` set (messages w1)
     \<and> (\<forall>raw\<in>set raws. \<exists>p now. outlook_parse_message L now raw = Inr p
            \<and> p_provider_message_id p \<in> m_provider_message_id ` set (messages w1))"
proof (induction raws arbitrary: k w)
  case Nil
  then show ?case by simp
next
  case (Cons raw raws)
  from Cons.prems(1) obtain p w' where
    p: "outlook_parse_message L (clock k) raw = Inr p"
    and s: "store_parsed p a w = Inr w'"
    and r: "process_outlook_messages L clock (Suc k) raws a w' = Inr w1"
    by (auto simp: process_outlook_message_def split: sum.splits)
  note d = store_parsed_distinct [OF s Cons.prems(2)]
  from d have dw': "distinct (map m_provider_message_id (messages w'))" by simp
  note ih = Cons.IH [OF r dw']
  from d ih have "p_provider_message_id p \<in> m_provider_message_id ` set (messages w1)"
    by blast
  with p have "\<exists>p now. outlook_parse_message L now raw = Inr p
            \<and> p_provider_message_id p \<in> m_provider_message_id ` set (messages w1)"
    by blast
  moreover from d ih
  have "m_provider_message_id ` set (messages w) \<subseteq> m_provider_message_id ` set (messages w1)"
    by blast
  ultimately show ?case using ih by simp
qed

lemma process_outlook_messages_noop:
  "distinct (map m_provider_message_id (messages w1)) \<Longrightarrow>
   \<forall>raw\<in>set raws. \<exists>p now. outlook_parse_message L now raw = Inr p
            \<and> p_provider_message_id p \<in> m_provider_message_id ` set (messages w1) \<Longrightarrow>
   process_outlook_messages L clock k raws a w1 = Inr w1"
proof (induction raws arbitrary: k)
  case Nil
  then show ?case by simp
next
  case (Cons raw raws)
  from Cons.prems(2) obtain p now where
    p: "outlook_parse_message L now raw = Inr p"
    and m: "p_provider_message_id p \<in> m_provider_message_id ` set (messages w1)"
    by auto
  from outlook_parse_clock [OF p, of "clock k"] obtain p' where
    p': "outlook_parse_message L (clock k) raw = Inr p'"
    and e: "p_provider_message_id p' = p_provider_message_id p"
    by blast
  from m e have "p_provider_message_id p' \<in> m_provider_message_id ` set (messages w1)"
    by simp
  from store_parsed_existing [OF Cons.prems(1) this]
  have "process_outlook_message L (clock k) raw a w1 = Inr w1"
    by (simp add: process_outlook_message_def p')
  moreover have "process_outlook_messages L clock (Suc k) raws a w1 = Inr w1"
    using Cons.IH [OF Cons.prems(1)] Cons.prems(2) by simp
  ultimately show ?case by simp
qed

lemma outlook_row_count:
  assumes "distinct (map m_provider_message_id (messages w1))"
    and "outlook_parse_message L now raw = Inr p"
    and "p_provider_message_id p \<in> m_provider_message_id ` set (messages w1)"
  shows "length (filter (\<lambda>m. Some (m_provider_message_id m) = om_id raw) (messages w1)) = 1"
proof -
  have "om_id raw = Some (p_provider_message_id p)" using assms(2) by (rule outlook_parse_id)
  then have "filter (\<lambda>m. Some (m_provider_message_id m) = om_id raw) (messages w1)
      = filter (\<lambda>m. m_provider_message_id m = p_provider_message_id p) (messages w1)"
    by simp
  with filter_key_count [OF assms(1) assms(3)] show ?thesis by simp
qed

lemma store_parsed_accounts: "store_parsed p a w = Inr w' \<Longrightarrow> accounts w' = accounts w"
  by (auto simp: store_parsed_def Let_def split: sum.splits option.splits prod.splits)

lemma process_gmail_messages_accounts:
  "process_gmail_messages L clock k raws a w = Inr w1 \<Longrightarrow> accounts w1 = accounts w"
proof (induction raws arbitrary: k w)
  case Nil
  then show ?case by simp
next
  case (Cons raw raws)
  then show ?case
    by (auto simp: process_gmail_message_def split: sum.splits dest: store_parsed_accounts)
qed

lemma process_outlook_messages_accounts:
  "process_outlook_messages L clock k raws a w = Inr w1 \<Longrightarrow> accounts w1 = accounts w"
proof (induction raws arbitrary: k w)
  case Nil
  then show ?case by simp
next
  case (Cons raw raws)
  then show ?case
    by (auto simp: process_outlook_message_def split: sum.splits dest: store_parsed_accounts)
qed

lemma ingested_accounts: "ingested env a w0 w \<Longrightarrow> accounts w = accounts w0"
  by (auto simp: ingested_def dest: process_gmail_messages_accounts
        process_outlook_messages_accounts)

lemma ingested_feeds_first:
  assumes "provider_feeds env graws oraws" and "ingested env a w0 w"
    and "distinct (map m_provider_message_id (messages w0))"
  shows "distinct (map m_provider_message_id (messages w)) \<and> fed_stored (lib env) a graws oraws w"
proof (cases "acc_provider a")
  case GMAIL
  from assms(1) obtain h where
    "gmail_fetch_messages env (access_token a) (MAX_MESSAGES_PER_ACCOUNT env) (cursor_of a)
       = Inr (FullResult graws h)"
    unfolding provider_feeds_def by blast
  with assms(2) GMAIL have
    "process_gmail_messages (lib env) (utcnow_parse env) 0 graws a w0 = Inr w"
    by (auto simp: ingested_def)
  from process_gmail_messages_ids [OF this assms(3)] GMAIL show ?thesis
    by (simp add: fed_stored_def)
next
  case OUTLOOK
  from assms(1) obtain r where
    "outlook_fetch_messages env (access_token a) (MAX_MESSAGES_PER_ACCOUNT env) (cursor_of a)
       = Inr r" and "of_messages r = oraws"
    unfolding provider_feeds_def by blast
  with assms(2) OUTLOOK have
    "process_outlook_messages (lib env) (utcnow_parse env) 0 oraws a w0 = Inr w"
    by (auto simp: ingested_def)
  from process_outlook_messages_ids [OF this assms(3)] OUTLOOK show ?thesis
    by (simp add: fed_stored_def)
qed

lemma sync_provider_account_noop:
  assumes "provider_feeds env graws oraws"
    and "distinct (map m_provider_message_id (messages (working db)))"
    and "fed_stored (lib env) a graws oraws (working db)"
  shows "\<exists>a2 db2. sync_provider_account env a db = Inr (a2, db2) \<and>
            committed db2 = as_stored (set_account a2 (working db)) \<and>
            working db2 = as_stored (set_account a2 (working db)) \<and>
            acc_id a2 = acc_id a"
proof (cases "acc_provider a")
  case GMAIL
  from assms(1) obtain h where
    f: "gmail_fetch_messages env (access_token a) (MAX_MESSAGES_PER_ACCOUNT env)
          (map_of (get_default (sync_state a) []) ''history_id'') = Inr (FullResult graws h)"
    unfolding provider_feeds_def by blast
  from assms(3) GMAIL have
    "\<forall>raw\<in>set graws. \<exists>p now. gmail_parse_message (lib env) now raw = Inr p
        \<and> p_provider_message_id p \<in> m_provider_message_id ` set (messages (working db))"
    by (simp add: fed_stored_def)
  from process_gmail_messages_noop [OF assms(2) this]
  have "process_gmail_messages (lib env) (utcnow_parse env) 0 graws a (working db)
          = Inr (working db)" .
  with f GMAIL show ?thesis
    by (simp add: sync_provider_account_def sync_gmail_account_def Let_def)
next
  case OUTLOOK
  from assms(1) obtain r where
    f: "outlook_fetch_messages env (access_token a) (MAX_MESSAGES_PER_ACCOUNT env)
          (map_of (get_default (sync_state a) []) ''delta_link'') = Inr r"
    and r: "of_messages r = oraws"
    unfolding provider_feeds_def by blast
  from assms(3) OUTLOOK have
    "\<forall>raw\<in>set oraws. \<exists>p now. outlook_parse_message (lib env) now raw = Inr p
        \<and> p_provider_message_id p \<in> m_provider_message_id ` set (messages (working db))"
    by (simp add: fed_stored_def)
  from process_outlook_messages_noop [OF assms(2) this]
  have "process_outlook_messages (lib env) (utcnow_parse env) 0 oraws a (working db)
          = Inr (working db)" .
  with f r OUTLOOK show ?thesis
    by (simp add: sync_provider_account_def sync_outlook_account_def Let_def)
qed

section \<open>Every way a sync can end\<close>

text \<open>
  Skipped; raised at the account query; raised at the expiry check, which every stored
  expiry does; raised by the fetch or the ingestion; or succeeded, after exactly two
  commits.
\<close>

lemma sync_account_async_cases:
  assumes "sync_account_async env aid s = (out, db')"
  obtains (skipped) "out = Skipped ''account not found or inactive''"
      and "db' = AsyncSessionLocal s"
      and "\<forall>a\<in>set (accounts s). acc_id a = aid \<longrightarrow> \<not> is_active a"
  | (ambiguous) x y zs where "filter (\<lambda>a. acc_id a = aid) (accounts s) = x # y # zs"
      and "out = Raised (NameError ''self'')"
      and "db' = rollback (AsyncSessionLocal s)"
  | (expiry) account e where
      "filter (\<lambda>a. acc_id a = aid) (accounts s) = [account]" and "is_active account"
      and "token_expiry account = Some e"
      and "out = Raised (NameError ''self'')"
      and "db' = rollback (AsyncSessionLocal s)"
  | (failed) account where
      "filter (\<lambda>a. acc_id a = aid) (accounts s) = [account]" and "is_active account"
      and "token_expiry account = None"
      and "out = Raised (NameError ''self'')"
      and "db' = rollback
             (record_event
                (FetchCall (acc_provider account) (access_token account) (cursor_of account))
                (AsyncSessionLocal s))"
  | (succeeded) account a2 w where
      "filter (\<lambda>a. acc_id a = aid) (accounts s) = [account]" and "is_active account"
      and "token_expiry account = None"
      and "ingested env account (as_stored s) w"
      and "acc_id a2 = aid" and "acc_provider a2 = acc_provider account"
      and "is_active a2" and "access_token a2 = access_token account"
      and "token_expiry a2 = None" and "last_synced_at a2 = last_synced_at account"
      and "out = Success aid"
      and "db' = commit (a2\<lparr>last_synced_at := Some (utcnow_synced env)\<rparr>)
             (commit a2
               ((record_event
                   (FetchCall (acc_provider account) (access_token account) (cursor_of account))
                   (AsyncSessionLocal s))
                  \<lparr>working := w\<rparr>))"
proof (cases "filter (\<lambda>a. acc_id a = aid) (accounts s)" rule: scalar_one_or_none.cases)
  case 1
  then have "\<forall>a\<in>set (accounts s). acc_id a \<noteq> aid"
    by (simp add: filter_empty_conv)
  with 1 assms skipped show ?thesis by (simp add: sync_account_async_not_found)
next
  case (3 x y zs)
  with assms ambiguous show ?thesis by (simp add: sync_account_async_multiple)
next
  case (2 account)
  have only: "a = account" if "a \<in> set (accounts s)" "acc_id a = aid" for a
  proof -
    from that have "a \<in> set (filter (\<lambda>a. acc_id a = aid) (accounts s))" by simp
    with 2 show ?thesis by simp
  qed
  from 2 have "account \<in> set (filter (\<lambda>a. acc_id a = aid) (accounts s))" by simp
  then have aid: "acc_id account = aid" by simp
  show ?thesis
  proof (cases "is_active account")
    case False
    with only have "\<forall>a\<in>set (accounts s). acc_id a = aid \<longrightarrow> \<not> is_active a" by blast
    with 2 False assms skipped show ?thesis by (simp add: sync_account_async_inactive)
  next
    case True
    show ?thesis
    proof (cases "token_expiry account")
      case (Some e)
      with assms sync_account_async_expiry [OF 2 True Some, of env]
      show ?thesis by (intro expiry [OF 2 True Some]) simp_all
    next
      case None
      note f = sync_account_async_found [OF 2 True None, of env]
      show ?thesis
      proof (cases "sync_provider_account env account (AsyncSessionLocal s)")
        case (Inl p)
        obtain e db2 where p: "p = (e, db2)" by (cases p)
        from sync_provider_account_Inl [OF Inl [unfolded p]]
        have "db2 = record_event
                (FetchCall (acc_provider account) (access_token account) (cursor_of account))
                (AsyncSessionLocal s)" .
        with assms f Inl p
        show ?thesis by (intro failed [OF 2 True None]) simp_all
      next
        case (Inr p)
        obtain a2 db2 where p: "p = (a2, db2)" by (cases p)
        from sync_provider_account_Inr [OF Inr [unfolded p]] obtain w where
          w: "ingested env account (working (AsyncSessionLocal s)) w"
          and db2: "db2 = commit a2
                      ((record_event
                          (FetchCall (acc_provider account) (access_token account)
                             (cursor_of account))
                          (AsyncSessionLocal s))
                         \<lparr>working := w\<rparr>)"
          and ids: "acc_id a2 = acc_id account" "acc_provider a2 = acc_provider account"
            "is_active a2 = is_active account" "access_token a2 = access_token account"
            "token_expiry a2 = token_expiry account" "last_synced_at a2 = last_synced_at account"
          by blast
        from w have w': "ingested env account (as_stored s) w" by simp
        from assms f Inr p db2 ids aid True None
        show ?thesis by (intro succeeded [OF 2 True None w', of a2]) simp_all
      qed
    qed
  qed
qed

section \<open>Feeding one record set twice\<close>

lemma aware_twice [simp]:
  "map (\<lambda>t. t\<lparr>t_last_message_at_aware := True\<rparr>)
     (map (\<lambda>t. t\<lparr>t_last_message_at_aware := True\<rparr>) ts) =
   map (\<lambda>t. t\<lparr>t_last_message_at_aware := True\<rparr>) ts"
  by (simp add: o_def)

text \<open>What a sync that succeeds leaves in the database.\<close>

lemma sync_account_async_Success:
  assumes "sync_account_async env aid s = (Success n, db1)"
  obtains account a3 w where
    "filter (\<lambda>a. acc_id a = aid) (accounts s) = [account]"
    and "ingested env account (as_stored s) w"
    and "acc_provider a3 = acc_provider account" and "is_active a3"
    and "token_expiry a3 = None"
    and "filter (\<lambda>a. acc_id a = aid) (accounts (committed db1)) = [a3]"
    and "committed db1 = as_stored (set_account a3 w)"
    and "n = aid"
  using assms
proof (cases rule: sync_account_async_cases)
  case skipped
  from skipped(1) show ?thesis by simp
next
  case (ambiguous x y zs)
  from ambiguous(2) show ?thesis by simp
next
  case (expiry account e)
  from expiry(4) show ?thesis by simp
next
  case (failed account)
  from failed(4) show ?thesis by simp
next
  case (succeeded account a2 w)
  let ?a3 = "a2\<lparr>last_synced_at := Some (utcnow_synced env)\<rparr>"
  from succeeded(12) have c: "committed db1 = as_stored (set_account ?a3 w)"
    by (simp add: as_stored_set_account) (simp add: set_account_def o_def)
  from ingested_accounts [OF succeeded(4)] succeeded(1)
  have "filter (\<lambda>a. acc_id a = aid) (accounts w) = [account]" by simp
  with filter_set_account [of ?a3 aid w] succeeded(5) c
  have f: "filter (\<lambda>a. acc_id a = aid) (accounts (committed db1)) = [?a3]" by simp
  from succeeded(11) have "n = aid" by simp
  with that [OF succeeded(1) succeeded(4), of ?a3] succeeded(6,7,9) f c show ?thesis
    by simp
qed

text \<open>
  Claim C1, as the code has it. Idempotency: feeding the same raw record set through Sync
  twice yields exactly one Message row per provider message id, a record whose id is
  already stored being skipped. The message ids of the database are unique (the unique
  index on \<open>provider_message_id\<close>); the provider hands out the record sets \<open>graws\<close> and
  \<open>oraws\<close> in both runs, which may differ in clock, tokens and cursor; the first run
  succeeds. Then the second run succeeds and leaves the thread, message and attachment
  tables exactly as the first run committed them, the ids stay unique, and every record of
  the account's feed has exactly one row; the account row gets the last-synced time of the
  second run.
\<close>

theorem sync_twice_idempotent:
  assumes uniq: "distinct (map m_provider_message_id (messages s))"
    and feeds: "provider_feeds env graws oraws" "provider_feeds env' graws oraws"
    and lib: "lib env' = lib env"
    and run1: "sync_account_async env account_id s = (Success account_id, db1)"
    and run2: "sync_account_async env' account_id (committed db1) = (out2, db2)"
  shows "threads (committed db2) = threads (committed db1) \<and>
         messages (committed db2) = messages (committed db1) \<and>
         attachments (committed db2) = attachments (committed db1) \<and>
         distinct (map m_provider_message_id (messages (committed db2))) \<and>
         out2 = Success account_id \<and>
         map last_synced_at (filter (\<lambda>a. acc_id a = account_id) (accounts (committed db2))) =
           [Some (utcnow_synced env')] \<and>
         (\<forall>a\<in>set (accounts s). acc_id a = account_id \<longrightarrow>
            (acc_provider a = GMAIL \<longrightarrow>
               (\<forall>raw\<in>set graws.
                  length (filter (\<lambda>m. Some (m_provider_message_id m) = gm_id raw)
                            (messages (committed db2))) = 1)) \<and>
            (acc_provider a = OUTLOOK \<longrightarrow>
               (\<forall>raw\<in>set oraws.
                  length (filter (\<lambda>m. Some (m_provider_message_id m) = om_id raw)
                            (messages (committed db2))) = 1)))"
proof -
  from run1 obtain account a3 w where
    found: "filter (\<lambda>a. acc_id a = account_id) (accounts s) = [account]"
    and ing: "ingested env account (as_stored s) w"
    and a3: "acc_provider a3 = acc_provider account" "is_active a3" "token_expiry a3 = None"
    and found1: "filter (\<lambda>a. acc_id a = account_id) (accounts (committed db1)) = [a3]"
    and s1: "committed db1 = as_stored (set_account a3 w)"
    by (rule sync_account_async_Success)
  let ?s1 = "committed db1"
  from uniq have "distinct (map m_provider_message_id (messages (as_stored s)))" by simp
  from ingested_feeds_first [OF feeds(1) ing this]
  have dw: "distinct (map m_provider_message_id (messages w))"
    and fed: "fed_stored (lib env) account graws oraws w" by simp_all
  from s1 have m1: "messages ?s1 = messages w" by simp
  from s1 have st: "as_stored ?s1 = ?s1" by simp
  have d1: "distinct (map m_provider_message_id (messages (working (AsyncSessionLocal ?s1))))"
    using m1 dw by simp
  from fed a3 m1 lib
  have "fed_stored (lib env') a3 graws oraws (working (AsyncSessionLocal ?s1))"
    by (simp add: fed_stored_def)
  from sync_provider_account_noop [OF feeds(2) d1 this] obtain b2 e2 where
    p: "sync_provider_account env' a3 (AsyncSessionLocal ?s1) = Inr (b2, e2)"
    and e2: "working e2 = as_stored (set_account b2 (working (AsyncSessionLocal ?s1)))"
    and idb: "acc_id b2 = acc_id a3"
    by blast
  let ?b3 = "b2\<lparr>last_synced_at := Some (utcnow_synced env')\<rparr>"
  from run2 sync_account_async_found [OF found1 a3(2) a3(3), of env'] p
  have o2: "out2 = Success account_id"
    and db2: "db2 = commit ?b3 e2"
    by simp_all
  with e2 st have same: "threads (committed db2) = threads ?s1"
    "messages (committed db2) = messages ?s1" "attachments (committed db2) = attachments ?s1"
    by (simp_all add: s1)
  from found1 have "a3 \<in> set (filter (\<lambda>a. acc_id a = account_id) (accounts ?s1))" by simp
  with idb have idb2: "acc_id b2 = account_id" by simp
  from e2 filter_set_account [of b2 account_id "working (AsyncSessionLocal ?s1)"] found1 idb2
  have "filter (\<lambda>a. acc_id a = account_id) (accounts (working e2)) = [b2]" by simp
  with db2 filter_set_account [of ?b3 account_id "working e2"] idb2
  have "filter (\<lambda>a. acc_id a = account_id) (accounts (committed db2)) = [?b3]" by simp
  then have synced:
    "map last_synced_at (filter (\<lambda>a. acc_id a = account_id) (accounts (committed db2))) =
       [Some (utcnow_synced env')]"
    by simp
  from same m1 dw have d2: "distinct (map m_provider_message_id (messages (committed db2)))"
    by simp
  from same m1 have mm: "messages (committed db2) = messages w" by simp
  have "\<forall>a\<in>set (accounts s). acc_id a = account_id \<longrightarrow>
            (acc_provider a = GMAIL \<longrightarrow>
               (\<forall>raw\<in>set graws.
                  length (filter (\<lambda>m. Some (m_provider_message_id m) = gm_id raw)
                            (messages (committed db2))) = 1)) \<and>
            (acc_provider a = OUTLOOK \<longrightarrow>
               (\<forall>raw\<in>set oraws.
                  length (filter (\<lambda>m. Some (m_provider_message_id m) = om_id raw)
                            (messages (committed db2))) = 1))"
  proof (intro ballI impI)
    fix a assume "a \<in> set (accounts s)" and "acc_id a = account_id"
    then have "a \<in> set (filter (\<lambda>a. acc_id a = account_id) (accounts s))" by simp
    with found have pa: "a = account" by simp
    show "(acc_provider a = GMAIL \<longrightarrow>
               (\<forall>raw\<in>set graws.
                  length (filter (\<lambda>m. Some (m_provider_message_id m) = gm_id raw)
                            (messages (committed db2))) = 1)) \<and>
            (acc_provider a = OUTLOOK \<longrightarrow>
               (\<forall>raw\<in>set oraws.
                  length (filter (\<lambda>m. Some (m_provider_message_id m) = om_id raw)
                            (messages (committed db2))) = 1))"
    proof (intro conjI impI ballI)
      fix raw assume "acc_provider a = GMAIL" and "raw \<in> set graws"
      with fed pa obtain p now where
        "gmail_parse_message (lib env) now raw = Inr p"
        "p_provider_message_id p \<in> m_provider_message_id ` set (messages w)"
        unfolding fed_stored_def by auto
      from gmail_row_count [OF dw this]
      show "length (filter (\<lambda>m. Some (m_provider_message_id m) = gm_id raw)
                            (messages (committed db2))) = 1"
        unfolding mm .
    next
      fix raw assume "acc_provider a = OUTLOOK" and "raw \<in> set oraws"
      with fed pa obtain p now where
        "outlook_parse_message (lib env) now raw = Inr p"
        "p_provider_message_id p \<in> m_provider_message_id ` set (messages w)"
        unfolding fed_stored_def by auto
      from outlook_row_count [OF dw this]
      show "length (filter (\<lambda>m. Some (m_provider_message_id m) = om_id raw)
                            (messages (committed db2))) = 1"
        unfolding mm .
    qed
  qed
  with same d2 o2 synced show ?thesis by simp
qed

theorem sync_twice_idempotent_witness:
  "distinct (map m_provider_message_id (messages store0)) \<and>
   provider_feeds env0 [gmail_msg_no_to] [om1] \<and>
   provider_feeds env1 [gmail_msg_no_to] [om1] \<and>
   lib env1 = lib env0 \<and>
   map token_expiry (accounts store0) = [None] \<and>
   fst first_run = Success 1 \<and>
   fst second_run = Success 1 \<and>
   map m_provider_message_id (messages (committed (snd first_run))) = [''o1''] \<and>
   threads (committed (snd second_run)) = threads (committed (snd first_run)) \<and>
   messages (committed (snd second_run)) = messages (committed (snd first_run)) \<and>
   attachments (committed (snd second_run)) = attachments (committed (snd first_run)) \<and>
   length (filter (\<lambda>m. Some (m_provider_message_id m) = om_id om1)
             (messages (committed (snd second_run)))) = 1"
proof -
  have u: "distinct (map m_provider_message_id (messages store0))"
    by (simp add: store0_def)
  have f0: "provider_feeds env0 [gmail_msg_no_to] [om1]"
    by (simp add: provider_feeds_def env0_def gmail_fetch_messages_def gmail_full_sync_def
          outlook_fetch_messages_def)
  have f1: "provider_feeds env1 [gmail_msg_no_to] [om1]"
    by (simp add: provider_feeds_def env1_def env0_def gmail_fetch_messages_def
          gmail_full_sync_def outlook_fetch_messages_def)
  have l: "lib env1 = lib env0" by (simp add: env1_def)
  have e: "map token_expiry (accounts store0) = [None]"
    by (simp add: store0_def outlook_account0_def)
  have c1: "committed (snd first_run) =
     \<lparr>accounts =
        [\<lparr>acc_id = 1, acc_provider = OUTLOOK, access_token = Some ''tok1'',
            encrypted_refresh_token = Some ''enc:r1'',
            token_expiry = None,
            sync_state = Some [(''delta_link'', ''dl2'')],
            last_synced_at = Some 1704200010, is_active = True\<rparr>],
        threads =
          [\<lparr>t_id = 1, t_account_id = 1, t_provider_thread_id = ''c1'',
              t_subject = ''Hello'', t_snippet = ''hello'',
              t_last_message_at = Some 1704103200, t_last_message_at_aware = True\<rparr>],
        messages =
          [\<lparr>m_id = 1, m_thread_id = 1, m_provider_message_id = ''o1'',
              m_from_addr = ''alice@example.org'',
              m_to_addrs = [''bob@example.org''], m_cc_addrs = [],
              m_bcc_addrs = [], m_subject = ''Hello'', m_date = 1704103200,
              m_body_text = ''hello'', m_body_html = [],
              m_has_attachments = False, m_is_read = False\<rparr>],
        attachments = []\<rparr>"
    by (simp add: first_run_def eval_sync env0_def store0_def outlook_account0_def om1_def
          lib0_def)
  have o1: "fst first_run = Success 1"
    by (simp add: first_run_def eval_sync env0_def store0_def outlook_account0_def om1_def
          lib0_def)
  have r1: "sync_account_async env0 1 store0 = (Success 1, snd first_run)"
    using o1 by (simp add: first_run_def prod_eq_iff)
  have r2: "sync_account_async env1 1 (committed (snd first_run))
              = (fst second_run, snd second_run)"
    by (simp add: second_run_def)
  note t = sync_twice_idempotent [OF u f0 f1 l r1 r2]
  have a: "outlook_account0 \<in> set (accounts store0)" "acc_id outlook_account0 = 1"
    "acc_provider outlook_account0 = OUTLOOK"
    by (simp_all add: store0_def outlook_account0_def)
  from t a have "length (filter (\<lambda>m. Some (m_provider_message_id m) = om_id om1)
             (messages (committed (snd second_run)))) = 1"
    by auto
  with t u f0 f1 l e o1 c1 show ?thesis by simp
qed

text \<open>
  Claim C1 as stated fails in its last clause: the store state after the second run is not
  the state after the first. Both runs are fed the record \<open>om1\<close> and succeed; the second
  adds no row, and writes a new last-synced time into the account row.
\<close>

theorem second_run_changes_account_row:
  "fst first_run = Success 1 \<and>
   fst second_run = Success 1 \<and>
   map last_synced_at (accounts (committed (snd first_run))) = [Some 1704200010] \<and>
   map last_synced_at (accounts (committed (snd second_run))) = [Some 1704286410] \<and>
   map m_provider_message_id (messages (committed (snd first_run))) = [''o1''] \<and>
   map m_provider_message_id (messages (committed (snd second_run))) = [''o1'']"
proof -
  have c1: "committed (snd first_run) =
     \<lparr>accounts =
        [\<lparr>acc_id = 1, acc_provider = OUTLOOK, access_token = Some ''tok1'',
            encrypted_refresh_token = Some ''enc:r1'',
            token_expiry = None,
            sync_state = Some [(''delta_link'', ''dl2'')],
            last_synced_at = Some 1704200010, is_active = True\<rparr>],
        threads =
          [\<lparr>t_id = 1, t_account_id = 1, t_provider_thread_id = ''c1'',
              t_subject = ''Hello'', t_snippet = ''hello'',
              t_last_message_at = Some 1704103200, t_last_message_at_aware = True\<rparr>],
        messages =
          [\<lparr>m_id = 1, m_thread_id = 1, m_provider_message_id = ''o1'',
              m_from_addr = ''alice@example.org'',
              m_to_addrs = [''bob@example.org''], m_cc_addrs = [],
              m_bcc_addrs = [], m_subject = ''Hello'', m_date = 1704103200,
              m_body_text = ''hello'', m_body_html = [],
              m_has_attachments = False, m_is_read = False\<rparr>],
        attachments = []\<rparr>"
    by (simp add: first_run_def eval_sync env0_def store0_def outlook_account0_def om1_def
          lib0_def)
  have o1: "fst first_run = Success 1"
    by (simp add: first_run_def eval_sync env0_def store0_def outlook_account0_def om1_def
          lib0_def)
  have "fst second_run = Success 1 \<and>
     map last_synced_at (accounts (committed (snd second_run))) = [Some 1704286410] \<and>
     map m_provider_message_id (messages (committed (snd second_run))) = [''o1'']"
    by (simp add: second_run_def c1 eval_sync env1_def env0_def om1_def lib0_def)
  with o1 c1 show ?thesis by simp
qed

section \<open>Thread timestamps\<close>

lemma fold_max_lower: "b \<le> fold max xs (b::nat)"
proof (induction xs arbitrary: b)
  case Nil
  show ?case by simp
next
  case (Cons a xs)
  have "max a b \<le> fold max xs (max a b)" by (rule Cons.IH)
  then show ?case by (simp add: max.bounded_iff)
qed

lemma fold_max_upper: "x \<in> set xs \<Longrightarrow> x \<le> fold max xs (b::nat)"
proof (induction xs arbitrary: b)
  case Nil
  then show ?case by simp
next
  case (Cons a xs)
  show ?case
  proof (cases "x = a")
    case True
    have "max a b \<le> fold max xs (max a b)" by (rule fold_max_lower)
    with True show ?thesis by (simp add: max.bounded_iff)
  next
    case False
    with Cons.prems have "x \<in> set xs" by simp
    then show ?thesis by (simp add: Cons.IH)
  qed
qed

lemma next_id_fresh: "next_id ids \<notin> set ids"
proof
  assume "next_id ids \<in> set ids"
  then have "next_id ids \<le> fold max ids 0" by (rule fold_max_upper)
  then show False by (simp add: next_id_def)
qed

lemma thread_advanced_refl: "thread_advanced t t"
  by (simp add: thread_advanced_def)

lemma thread_advanced_trans:
  "thread_advanced t u \<Longrightarrow> thread_advanced u v \<Longrightarrow> thread_advanced t v"
  by (auto simp: thread_advanced_def)

lemma threads_advanced_refl: "threads_advanced ts ts"
  by (simp add: threads_advanced_def list_all2_refl thread_advanced_refl)

lemma threads_advanced_nth:
  "threads_advanced ts ts' \<longleftrightarrow>
     length ts \<le> length ts' \<and> (\<forall>i<length ts. thread_advanced (ts ! i) (ts' ! i))"
  by (auto simp: threads_advanced_def list_all2_conv_all_nth)

lemma threads_advanced_trans:
  assumes "threads_advanced ts us" and "threads_advanced us vs"
  shows "threads_advanced ts vs"
proof -
  from assms have len: "length ts \<le> length us" "length us \<le> length vs"
    and a: "\<And>i. i < length ts \<Longrightarrow> thread_advanced (ts ! i) (us ! i)"
    and b: "\<And>i. i < length us \<Longrightarrow> thread_advanced (us ! i) (vs ! i)"
    by (simp_all add: threads_advanced_nth)
  have "thread_advanced (ts ! i) (vs ! i)" if "i < length ts" for i
  proof -
    from that len have "i < length us" by simp
    from a [OF that] b [OF this] show ?thesis by (rule thread_advanced_trans)
  qed
  with len show ?thesis by (simp add: threads_advanced_nth)
qed

lemma get_or_create_thread_advanced:
  assumes "get_or_create_thread p a ts = Inr (tid, ts')" and "distinct (map t_id ts)"
  shows "threads_advanced ts ts' \<and> distinct (map t_id ts')"
proof (cases "scalar_one_or_none
             (filter (\<lambda>t. t_account_id t = acc_id a \<and>
                           t_provider_thread_id t = p_thread_id p) ts)")
  case (Inl e)
  with assms show ?thesis by (simp add: get_or_create_thread_def)
next
  case (Inr r)
  show ?thesis
  proof (cases r)
    case None
    with Inr assms(1) obtain t where ts': "ts' = ts @ [t]" and t: "t_id t = next_id (map t_id ts)"
      by (auto simp: get_or_create_thread_def Let_def)
    from t assms(2) next_id_fresh [of "map t_id ts"] have "distinct (map t_id ts')"
      unfolding ts' by simp
    moreover have "threads_advanced ts ts'"
      unfolding ts' by (simp add: threads_advanced_nth nth_append thread_advanced_refl)
    ultimately show ?thesis by simp
  next
    case (Some found)
    with Inr have f: "filter (\<lambda>t. t_account_id t = acc_id a \<and>
                           t_provider_thread_id t = p_thread_id p) ts = [found]"
      by (simp add: scalar_one_or_none_Some)
    then have "found \<in> set (filter (\<lambda>t. t_account_id t = acc_id a \<and>
                           t_provider_thread_id t = p_thread_id p) ts)" by simp
    then have mem: "found \<in> set ts" by simp
    from assms(2) have inj: "inj_on t_id (set ts)" by (simp add: distinct_map)
    have uniq: "t = found" if "t \<in> set ts" "t_id t = t_id found" for t
      using inj_onD [OF inj that(2) that(1) mem] .
    show ?thesis
    proof (cases "t_last_message_at found")
      case None
      with Inr Some assms(1) show ?thesis by (simp add: get_or_create_thread_def)
    next
      case (Some prev)
      from Inr \<open>r = Some found\<close> Some assms(1)
      have same: "t_last_message_at_aware found = p_date_aware p"
        by (auto simp: get_or_create_thread_def datetime_less_def split: if_splits)
      show ?thesis
      proof (cases "prev < p_date p")
        case False
        with Inr \<open>r = Some found\<close> Some same assms show ?thesis
          by (simp add: get_or_create_thread_def datetime_less_def threads_advanced_refl)
      next
        case True
        let ?f = "\<lambda>t. if t_id t = t_id found
                                then t\<lparr>t_last_message_at := Some (p_date p),
                                        t_snippet := p_snippet p\<rparr>
                                else t"
        from Inr \<open>r = Some found\<close> Some True same assms(1) have ts': "ts' = map ?f ts"
          by (auto simp: get_or_create_thread_def datetime_less_def)
        have "map t_id ts' = map t_id ts" unfolding ts' by (induction ts) auto
        with assms(2) have "distinct (map t_id ts')" by simp
        moreover have "thread_advanced (ts ! i) (ts' ! i)" if "i < length ts" for i
        proof (cases "t_id (ts ! i) = t_id found")
          case False
          with that show ?thesis unfolding ts' by (simp add: thread_advanced_refl)
        next
          case eq: True
          from that uniq [OF _ eq] have "ts ! i = found" by simp
          with that Some True show ?thesis
            unfolding ts' by (simp add: thread_advanced_def)
        qed
        then have "threads_advanced ts ts'"
          unfolding threads_advanced_nth ts' by simp
        ultimately show ?thesis by simp
      qed
    qed
  qed
qed

lemma store_parsed_cases:
  assumes "store_parsed p a w = Inr w'"
  obtains (skip) existing where "w' = w"
      and "filter (\<lambda>m. m_provider_message_id m = p_provider_message_id p) (messages w) = [existing]"
  | (ingest) tid ts where "get_or_create_thread p a (threads w) = Inr (tid, ts)"
      and "threads w' = ts"
      and "filter (\<lambda>m. m_provider_message_id m = p_provider_message_id p) (messages w) = []"
proof (cases "scalar_one_or_none
             (filter (\<lambda>m. m_provider_message_id m = p_provider_message_id p) (messages w))")
  case (Inl e)
  with assms show ?thesis by (simp add: store_parsed_def)
next
  case (Inr r)
  show ?thesis
  proof (cases r)
    case (Some existing)
    with Inr assms have "w' = w" by (simp add: store_parsed_def)
    moreover from Inr Some
    have "filter (\<lambda>m. m_provider_message_id m = p_provider_message_id p) (messages w) = [existing]"
      by (simp add: scalar_one_or_none_Some)
    ultimately show ?thesis by (rule skip)
  next
    case None
    with Inr have e:
      "filter (\<lambda>m. m_provider_message_id m = p_provider_message_id p) (messages w) = []"
      by (simp add: scalar_one_or_none_None)
    show ?thesis
    proof (cases "get_or_create_thread p a (threads w)")
      case (Inl e)
      with Inr None assms show ?thesis by (simp add: store_parsed_def)
    next
      case g: (Inr q)
      obtain tid ts where q: "q = (tid, ts)" by (cases q)
      from Inr None g q assms have "threads w' = ts"
        by (auto simp: store_parsed_def Let_def)
      with g q e show ?thesis by (auto intro: ingest)
    qed
  qed
qed

lemma store_parsed_advanced:
  assumes "store_parsed p a w = Inr w'" and "distinct (map t_id (threads w))"
  shows "threads_advanced (threads w) (threads w') \<and> distinct (map t_id (threads w'))"
  using assms(1)
proof (cases rule: store_parsed_cases)
  case (skip existing)
  with assms(2) show ?thesis by (simp add: threads_advanced_refl)
next
  case (ingest tid ts)
  with get_or_create_thread_advanced [OF ingest(1) assms(2)] show ?thesis by simp
qed

lemma process_gmail_messages_advanced:
  "process_gmail_messages L clock k raws a w = Inr w' \<Longrightarrow> distinct (map t_id (threads w)) \<Longrightarrow>
     threads_advanced (threads w) (threads w') \<and> distinct (map t_id (threads w'))"
proof (induction raws arbitrary: k w)
  case Nil
  then show ?case by (simp add: threads_advanced_refl)
next
  case (Cons raw raws)
  from Cons.prems(1) obtain p w1 where
    s: "store_parsed p a w = Inr w1"
    and r: "process_gmail_messages L clock (Suc k) raws a w1 = Inr w'"
    by (auto simp: process_gmail_message_def split: sum.splits)
  note a = store_parsed_advanced [OF s Cons.prems(2)]
  from a Cons.IH [OF r] show ?case by (blast intro: threads_advanced_trans)
qed

lemma process_outlook_messages_advanced:
  "process_outlook_messages L clock k raws a w = Inr w' \<Longrightarrow> distinct (map t_id (threads w)) \<Longrightarrow>
     threads_advanced (threads w) (threads w') \<and> distinct (map t_id (threads w'))"
proof (induction raws arbitrary: k w)
  case Nil
  then show ?case by (simp add: threads_advanced_refl)
next
  case (Cons raw raws)
  from Cons.prems(1) obtain p w1 where
    s: "store_parsed p a w = Inr w1"
    and r: "process_outlook_messages L clock (Suc k) raws a w1 = Inr w'"
    by (auto simp: process_outlook_message_def split: sum.splits)
  note a = store_parsed_advanced [OF s Cons.prems(2)]
  from a Cons.IH [OF r] show ?case by (blast intro: threads_advanced_trans)
qed

lemma ingested_advanced:
  assumes "ingested env a w0 w" and "distinct (map t_id (threads w0))"
  shows "threads_advanced (threads w0) (threads w)"
  using assms
  by (auto simp: ingested_def threads_advanced_refl
      dest: process_gmail_messages_advanced process_outlook_messages_advanced)

lemma filter_key_absent: "k \<notin> f ` set xs \<Longrightarrow> filter (\<lambda>m. f m = k) xs = []"
proof -
  assume "k \<notin> f ` set xs"
  then have "\<forall>x\<in>set xs. f x \<noteq> k" by blast
  then show ?thesis by (simp add: filter_empty_conv)
qed

lemma store_parsed_max:
  assumes "store_parsed p a w = Inr w'"
    and "p_provider_message_id p \<notin> m_provider_message_id ` set (messages w)"
    and "i < length (threads w)"
    and "t_account_id (threads w ! i) = acc_id a"
    and "t_provider_thread_id (threads w ! i) = p_thread_id p"
    and "t_last_message_at (threads w ! i) = Some d"
  shows "t_last_message_at (threads w' ! i) = Some (max d (p_date p))"
proof -
  let ?q = "\<lambda>t. t_account_id t = acc_id a \<and> t_provider_thread_id t = p_thread_id p"
  from assms(2) have none:
    "filter (\<lambda>m. m_provider_message_id m = p_provider_message_id p) (messages w) \<noteq> [x]" for x
    by (auto simp: filter_key_absent)
  from assms(3-5) have mem: "threads w ! i \<in> set (filter ?q (threads w))" by simp
  from assms(1) obtain tid ts where
    g: "get_or_create_thread p a (threads w) = Inr (tid, ts)" and ts: "threads w' = ts"
  proof (cases rule: store_parsed_cases)
    case (skip existing)
    with none [of existing] show ?thesis by simp
  next
    case (ingest tid ts)
    with that show ?thesis by blast
  qed
  from g obtain r where r: "scalar_one_or_none (filter ?q (threads w)) = Inr r"
    by (auto simp: get_or_create_thread_def split: sum.splits)
  from r mem obtain found where f: "filter ?q (threads w) = [found]"
    by (cases "filter ?q (threads w)" rule: scalar_one_or_none.cases) auto
  with mem have found: "found = threads w ! i" by simp
  from g f found assms(6)
  have same: "t_last_message_at_aware found = p_date_aware p"
    by (auto simp: get_or_create_thread_def datetime_less_def split: if_splits)
  from g f found same assms(3,6) show ?thesis
    unfolding ts by (auto simp: get_or_create_thread_def datetime_less_def split: if_splits)
qed

lemma threads_advanced_as_stored:
  "threads_advanced ts (map (\<lambda>t. t\<lparr>t_last_message_at_aware := True\<rparr>) ts)"
  by (simp add: threads_advanced_nth thread_advanced_def)

lemma sync_account_async_threads:
  assumes "distinct (map t_id (threads s))"
  shows "threads_advanced (threads s) (threads (committed (snd (sync_account_async env aid s))))"
proof -
  obtain out db' where r: "sync_account_async env aid s = (out, db')"
    by (cases "sync_account_async env aid s")
  from r have "threads_advanced (threads s) (threads (committed db'))"
  proof (cases rule: sync_account_async_cases)
    case skipped
    then show ?thesis by (simp add: threads_advanced_refl)
  next
    case (ambiguous x y zs)
    then show ?thesis by (simp add: threads_advanced_refl)
  next
    case (expiry account e)
    then show ?thesis by (simp add: threads_advanced_refl)
  next
    case (failed account)
    then show ?thesis by (simp add: threads_advanced_refl)
  next
    case (succeeded account a2 w)
    let ?aware = "map (\<lambda>t. t\<lparr>t_last_message_at_aware := True\<rparr>)"
    from assms have "distinct (map t_id (threads (as_stored s)))" by (simp add: o_def)
    from ingested_advanced [OF succeeded(4) this]
    have "threads_advanced (?aware (threads s)) (threads w)" by simp
    with threads_advanced_as_stored [of "threads s"]
    have "threads_advanced (threads s) (threads w)" by (rule threads_advanced_trans)
    from this threads_advanced_as_stored [of "threads w"]
    have "threads_advanced (threads s) (?aware (threads w))" by (rule threads_advanced_trans)
    moreover from succeeded(12) have "threads (committed db') = ?aware (threads w)" by simp
    ultimately show ?thesis by simp
  qed
  with r show ?thesis by simp
qed

text \<open>
  Claim C6. Monotonicity: for every thread, the last-message timestamp never decreases
  across any sequence of ingestions, and ingesting a message into an existing thread sets
  it to the maximum of the old timestamp and the message's date, on both provider paths.
  Thread keys are unique (the primary key). Then each ingestion loop that returns, and
  each whole sync whatever its outcome, leaves every thread row in place as the same
  thread with a timestamp that is not earlier; and one ingestion of a new message whose
  thread is row \<open>i\<close> with timestamp \<open>d\<close> leaves that row with \<open>max d date\<close>. An
  ingestion whose comparison of the two dates raises does not return, and its sync commits
  nothing.
\<close>

theorem last_message_at_monotone:
  assumes "distinct (map t_id (threads w))"
  shows "(process_gmail_messages L clock k graws account w = Inr w' \<longrightarrow>
            threads_advanced (threads w) (threads w')) \<and>
         (process_outlook_messages L clock k oraws account w = Inr w' \<longrightarrow>
            threads_advanced (threads w) (threads w')) \<and>
         threads_advanced (threads w)
            (threads (committed (snd (sync_account_async env account_id w)))) \<and>
         (gmail_parse_message L now graw = Inr parsed \<and>
          process_gmail_message L now graw account w = Inr w' \<and>
          p_provider_message_id parsed \<notin> m_provider_message_id ` set (messages w) \<and>
          i < length (threads w) \<and>
          t_account_id (threads w ! i) = acc_id account \<and>
          t_provider_thread_id (threads w ! i) = p_thread_id parsed \<and>
          t_last_message_at (threads w ! i) = Some d \<longrightarrow>
            t_last_message_at (threads w' ! i) = Some (max d (p_date parsed))) \<and>
         (outlook_parse_message L now oraw = Inr parsed \<and>
          process_outlook_message L now oraw account w = Inr w' \<and>
          p_provider_message_id parsed \<notin> m_provider_message_id ` set (messages w) \<and>
          i < length (threads w) \<and>
          t_account_id (threads w ! i) = acc_id account \<and>
          t_provider_thread_id (threads w ! i) = p_thread_id parsed \<and>
          t_last_message_at (threads w ! i) = Some d \<longrightarrow>
            t_last_message_at (threads w' ! i) = Some (max d (p_date parsed)))"
proof (intro conjI impI)
  assume "process_gmail_messages L clock k graws account w = Inr w'"
  from process_gmail_messages_advanced [OF this assms]
  show "threads_advanced (threads w) (threads w')" by simp
next
  assume "process_outlook_messages L clock k oraws account w = Inr w'"
  from process_outlook_messages_advanced [OF this assms]
  show "threads_advanced (threads w) (threads w')" by simp
next
  show "threads_advanced (threads w)
            (threads (committed (snd (sync_account_async env account_id w))))"
    using assms by (rule sync_account_async_threads)
next
  assume a: "gmail_parse_message L now graw = Inr parsed \<and>
          process_gmail_message L now graw account w = Inr w' \<and>
          p_provider_message_id parsed \<notin> m_provider_message_id ` set (messages w) \<and>
          i < length (threads w) \<and>
          t_account_id (threads w ! i) = acc_id account \<and>
          t_provider_thread_id (threads w ! i) = p_thread_id parsed \<and>
          t_last_message_at (threads w ! i) = Some d"
  then have s: "store_parsed parsed account w = Inr w'"
    by (auto simp: process_gmail_message_def)
  from a have b: "p_provider_message_id parsed \<notin> m_provider_message_id ` set (messages w)"
    "i < length (threads w)" "t_account_id (threads w ! i) = acc_id account"
    "t_provider_thread_id (threads w ! i) = p_thread_id parsed"
    "t_last_message_at (threads w ! i) = Some d"
    by simp_all
  show "t_last_message_at (threads w' ! i) = Some (max d (p_date parsed))"
    by (rule store_parsed_max [OF s b])
next
  assume a: "outlook_parse_message L now oraw = Inr parsed \<and>
          process_outlook_message L now oraw account w = Inr w' \<and>
          p_provider_message_id parsed \<notin> m_provider_message_id ` set (messages w) \<and>
          i < length (threads w) \<and>
          t_account_id (threads w ! i) = acc_id account \<and>
          t_provider_thread_id (threads w ! i) = p_thread_id parsed \<and>
          t_last_message_at (threads w ! i) = Some d"
  then have s: "store_parsed parsed account w = Inr w'"
    by (auto simp: process_outlook_message_def)
  from a have b: "p_provider_message_id parsed \<notin> m_provider_message_id ` set (messages w)"
    "i < length (threads w)" "t_account_id (threads w ! i) = acc_id account"
    "t_provider_thread_id (threads w ! i) = p_thread_id parsed"
    "t_last_message_at (threads w ! i) = Some d"
    by simp_all
  show "t_last_message_at (threads w' ! i) = Some (max d (p_date parsed))"
    by (rule store_parsed_max [OF s b])
qed

theorem last_message_at_monotone_witness:
  "distinct (map t_id (threads store1)) \<and>
   process_outlook_messages lib0 (utcnow_parse env1) 0 [om2] outlook_account1 store1 = Inr store2 \<and>
   threads_advanced (threads store1) (threads store2) \<and>
   threads_advanced (threads store1)
     (threads (committed (snd (sync_account_async env_outlook_reply 1 store1)))) \<and>
   t_last_message_at (threads store1 ! 0) = Some 1704103200 \<and>
   t_last_message_at (threads store2 ! 0) = Some 1704189600 \<and>
   distinct (map t_id (threads store_gmail_b)) \<and>
   process_gmail_messages lib0 (utcnow_parse env0) 0 [gmail_msg2] gmail_account_b store_gmail_b
     = Inr store_gmail_b2 \<and>
   threads_advanced (threads store_gmail_b) (threads store_gmail_b2) \<and>
   t_last_message_at (threads store_gmail_b ! 0) = Some 1704103200 \<and>
   t_last_message_at (threads store_gmail_b2 ! 0) = Some 1704189600"
proof -
  let ?po = "\<lparr>p_provider_message_id = ''o2'', p_thread_id = ''c1'',
        p_from_addr = ''bob@example.org'',
        p_to_addrs = [''alice@example.org''], p_cc_addrs = [],
        p_bcc_addrs = Some [], p_subject = ''Re: Hello'',
        p_date = 1704189600, p_date_aware = True, p_body_text = [],
        p_body_html = ''<p>hi</p>'',
        p_snippet = ''hi'', p_attachments = [], p_has_attachments = False\<rparr>"
  let ?pg = "\<lparr>p_provider_message_id = ''m2'', p_thread_id = ''t1'',
        p_from_addr = ''bob@example.org'',
        p_to_addrs = [''alice@example.org''], p_cc_addrs = [],
        p_bcc_addrs = None, p_subject = ''Re: Hello'', p_date = 1704189600,
        p_date_aware = True, p_body_text = ''hello'', p_body_html = [], p_snippet = ''hi'',
        p_attachments = [], p_has_attachments = False\<rparr>"
  have d1: "distinct (map t_id (threads store1))" by (simp add: store1_def)
  have d2: "distinct (map t_id (threads store_gmail_b))" by (simp add: store_gmail_b_def)
  have po: "outlook_parse_message lib0 (utcnow_parse env1 0) om2 = Inr ?po"
    by (simp add: outlook_parse_message_def om2_def lib0_def Let_def)
  have pg: "gmail_parse_message lib0 (utcnow_parse env0 0) gmail_msg2 = Inr ?pg"
    by (simp add: gmail_parse_message_def gmail_extract_body_def gmail_extract_attachments_def
          gmail_msg2_def lib0_def header_get_def Let_def)
  have so: "process_outlook_message lib0 (utcnow_parse env1 0) om2 outlook_account1 store1
              = Inr store2"
    by (simp add: process_outlook_message_def po store_parsed_def get_or_create_thread_def
          datetime_less_def store1_def store2_def outlook_account1_def message_o1_def message_o2_def
          next_id_def Let_def)
  have sg: "process_gmail_message lib0 (utcnow_parse env0 0) gmail_msg2 gmail_account_b
              store_gmail_b = Inr store_gmail_b2"
    by (simp add: process_gmail_message_def pg store_parsed_def get_or_create_thread_def
          datetime_less_def store_gmail_b_def store_gmail_b2_def gmail_account_b_def message_m1_def
          message_m2_def next_id_def Let_def)
  have lo: "process_outlook_messages lib0 (utcnow_parse env1) 0 [om2] outlook_account1 store1
              = Inr store2"
    by (simp add: so)
  have lg: "process_gmail_messages lib0 (utcnow_parse env0) 0 [gmail_msg2] gmail_account_b
              store_gmail_b = Inr store_gmail_b2"
    by (simp add: sg)
  have fo: "p_provider_message_id ?po \<notin> m_provider_message_id ` set (messages store1)"
    "0 < length (threads store1)"
    "t_account_id (threads store1 ! 0) = acc_id outlook_account1"
    "t_provider_thread_id (threads store1 ! 0) = p_thread_id ?po"
    "t_last_message_at (threads store1 ! 0) = Some 1704103200"
    by (simp_all add: store1_def message_o1_def outlook_account1_def)
  have fg: "p_provider_message_id ?pg \<notin> m_provider_message_id ` set (messages store_gmail_b)"
    "0 < length (threads store_gmail_b)"
    "t_account_id (threads store_gmail_b ! 0) = acc_id gmail_account_b"
    "t_provider_thread_id (threads store_gmail_b ! 0) = p_thread_id ?pg"
    "t_last_message_at (threads store_gmail_b ! 0) = Some 1704103200"
    by (simp_all add: store_gmail_b_def message_m1_def gmail_account_b_def)
  note to = last_message_at_monotone [OF d1, of lib0 "utcnow_parse env1" 0 "[]" outlook_account1
      store2 "[om2]" env_outlook_reply 1 "utcnow_parse env1 0" gmail_msg2 ?po 0 1704103200 om2]
  note tg = last_message_at_monotone [OF d2, of lib0 "utcnow_parse env0" 0 "[gmail_msg2]"
      gmail_account_b store_gmail_b2 "[]" env0 1 "utcnow_parse env0 0" gmail_msg2 ?pg 0
      1704103200 om2]
  from to lo po so fo have
    "threads_advanced (threads store1) (threads store2)"
    "threads_advanced (threads store1)
       (threads (committed (snd (sync_account_async env_outlook_reply 1 store1))))"
    "t_last_message_at (threads store2 ! 0) = Some 1704189600"
    by simp_all
  moreover from tg lg pg sg fg have
    "threads_advanced (threads store_gmail_b) (threads store_gmail_b2)"
    "t_last_message_at (threads store_gmail_b2 ! 0) = Some 1704189600"
    by simp_all
  ultimately show ?thesis using d1 d2 lo lg fo(5) fg(5) by simp
qed
section \<open>What a sync commits\<close>

text \<open>
  Claim C2, as the code has it. The claim asks that cursor, last-synced time and all
  inserts of a batch land as one atomic unit and that any error leaves the store
  unchanged. A sync that does not succeed commits nothing and leaves the database as it
  was. A sync that succeeds commits exactly twice: \<open>sync_gmail_account\<close> or
  \<open>sync_outlook_account\<close> commits the inserts together with the cursor, and that
  committed state still carries the last-synced time the account had before; then
  \<open>sync_account_async\<close> commits the new last-synced time, with the same batch (the three
  tables and the account's cursor).
\<close>

theorem batch_commits_with_cursor:
  assumes "sync_account_async env account_id s = (out, db')"
  shows "(out \<noteq> Success account_id \<longrightarrow>
            commit_states (trace db') = [] \<and> committed db' = s) \<and>
         (out = Success account_id \<longrightarrow>
            (\<exists>c1. commit_states (trace db') = [c1, committed db'] \<and>
                  batch_view account_id c1 = batch_view account_id (committed db') \<and>
                  map last_synced_at (filter (\<lambda>a. acc_id a = account_id) (accounts c1)) =
                    map last_synced_at (filter (\<lambda>a. acc_id a = account_id) (accounts s)) \<and>
                  map last_synced_at
                      (filter (\<lambda>a. acc_id a = account_id) (accounts (committed db'))) =
                    [Some (utcnow_synced env)]))"
  using assms
proof (cases rule: sync_account_async_cases)
  case skipped
  then show ?thesis by simp
next
  case (ambiguous x y zs)
  then show ?thesis by simp
next
  case (expiry account e)
  then show ?thesis by simp
next
  case (failed account)
  then show ?thesis by simp
next
  case (succeeded account a2 w)
  let ?a3 = "a2\<lparr>last_synced_at := Some (utcnow_synced env)\<rparr>"
  let ?c1 = "as_stored (set_account a2 w)"
  let ?c2 = "as_stored (set_account ?a3 ?c1)"
  from succeeded(12) have c: "committed db' = ?c2"
    and t: "commit_states (trace db') = [?c1, ?c2]"
    by simp_all
  from ingested_accounts [OF succeeded(4)] succeeded(1)
  have fw: "filter (\<lambda>a. acc_id a = account_id) (accounts w) = [account]" by simp
  with filter_set_account [of a2 account_id w] succeeded(5)
  have f1: "filter (\<lambda>a. acc_id a = account_id) (accounts ?c1) = [a2]" by simp
  with filter_set_account [of ?a3 account_id ?c1] succeeded(5)
  have f2: "filter (\<lambda>a. acc_id a = account_id) (accounts ?c2) = [?a3]" by simp
  from f1 f2 have "batch_view account_id ?c1 = batch_view account_id ?c2"
    by (simp add: batch_view_def)
  moreover from f1 succeeded(1,10)
  have "map last_synced_at (filter (\<lambda>a. acc_id a = account_id) (accounts ?c1)) =
          map last_synced_at (filter (\<lambda>a. acc_id a = account_id) (accounts s))"
    by simp
  moreover from f2
  have "map last_synced_at (filter (\<lambda>a. acc_id a = account_id) (accounts ?c2)) =
          [Some (utcnow_synced env)]"
    by simp
  ultimately show ?thesis using c t succeeded(11) by simp
qed

theorem batch_commits_with_cursor_witness:
  "map token_expiry (accounts store0) = [None] \<and>
   fst first_run = Success 1 \<and>
   map snapshot_summary (commit_states (trace (snd first_run))) =
     [(1, [Some [(''delta_link'', ''dl2'')]], [None]),
      (1, [Some [(''delta_link'', ''dl2'')]], [Some 1704200010])] \<and>
   commit_states (trace (snd first_run)) ! 1 = committed (snd first_run) \<and>
   batch_view 1 (commit_states (trace (snd first_run)) ! 0) =
     batch_view 1 (committed (snd first_run)) \<and>
   fst (sync_account_async env_fetch_fails 1 store0) = Raised (NameError ''self'') \<and>
   commit_states (trace (snd (sync_account_async env_fetch_fails 1 store0))) = [] \<and>
   committed (snd (sync_account_async env_fetch_fails 1 store0)) = store0"
proof -
  have e: "map token_expiry (accounts store0) = [None]"
    by (simp add: store0_def outlook_account0_def)
  have o1: "fst first_run = Success 1"
    by (simp add: first_run_def eval_sync env0_def store0_def outlook_account0_def om1_def
          lib0_def)
  have s1: "map snapshot_summary (commit_states (trace (snd first_run))) =
     [(1, [Some [(''delta_link'', ''dl2'')]], [None]),
      (1, [Some [(''delta_link'', ''dl2'')]], [Some 1704200010])]"
    by (simp add: first_run_def eval_sync env0_def store0_def outlook_account0_def om1_def
          lib0_def snapshot_summary_def)
  have o2: "fst (sync_account_async env_fetch_fails 1 store0) = Raised (NameError ''self'')"
    by (simp add: eval_sync env_fetch_fails_def env0_def store0_def outlook_account0_def)
  have r1: "sync_account_async env0 1 store0 = (fst first_run, snd first_run)"
    by (simp add: first_run_def)
  have r2: "sync_account_async env_fetch_fails 1 store0 =
      (fst (sync_account_async env_fetch_fails 1 store0),
       snd (sync_account_async env_fetch_fails 1 store0))"
    by simp
  note t1 = batch_commits_with_cursor [OF r1]
  note t2 = batch_commits_with_cursor [OF r2]
  from t1 o1 obtain c1 where
    cs: "commit_states (trace (snd first_run)) = [c1, committed (snd first_run)]"
    and c1: "batch_view 1 c1 = batch_view 1 (committed (snd first_run))"
    by auto
  from cs c1 have
    "commit_states (trace (snd first_run)) ! 1 = committed (snd first_run)"
    "batch_view 1 (commit_states (trace (snd first_run)) ! 0) =
       batch_view 1 (committed (snd first_run))"
    by simp_all
  moreover from t2 o2 have
    "commit_states (trace (snd (sync_account_async env_fetch_fails 1 store0))) = []"
    "committed (snd (sync_account_async env_fetch_fails 1 store0)) = store0"
    by simp_all
  ultimately show ?thesis using e o1 s1 o2 by simp
qed

text \<open>
  Claim C2 as stated fails: the last-synced time is not persisted together with the
  inserts and the cursor. The successful first sync commits a state that holds the
  inserted message and the new cursor but no last-synced time, and sets the last-synced
  time in a second commit.
\<close>

theorem sync_not_one_atomic_unit:
  "fst first_run = Success 1 \<and>
   snapshot_summary store0 = (0, [None], [None]) \<and>
   map snapshot_summary (commit_states (trace (snd first_run))) =
     [(1, [Some [(''delta_link'', ''dl2'')]], [None]),
      (1, [Some [(''delta_link'', ''dl2'')]], [Some 1704200010])]"
  by (simp add: first_run_def eval_sync env0_def store0_def
        outlook_account0_def om1_def lib0_def snapshot_summary_def)

section \<open>The incremental paths\<close>

text \<open>
  Claim C3. Scenario B: a second sync with the stored cursor, to which the provider returns
  one new record of an existing thread, is to leave the thread count unchanged, add one
  message and move the thread's last-message timestamp to the new date, on both provider
  paths. On the Gmail path the stored history id makes \<open>fetch_messages\<close> return the
  history, and the branch of \<open>sync_gmail_account\<close> for it is a loop around \<open>pass\<close>
  under the comment \<open># Fetch full message\<close>: \<open>sync_gmail_account\<close> returns with one
  commit of the database as it was, and the sync of the account (taken without a stored
  token expiry, so that the sync reaches the fetch) succeeds with the reply \<open>m2\<close> not
  stored and the thread's timestamp unchanged. The Outlook path, on the same scenario,
  stores the reply.
\<close>

theorem gmail_incremental_sync_ingests_nothing:
  "gmail_fetch_messages env_gmail_reply (Some ''gtok1'') 50 (Some ''h1'') =
     Inr (HistoryResult \<lparr>gh_history = Some [\<lparr>hr_messagesAdded = Some [gmail_msg2]\<rparr>]\<rparr>) \<and>
   sync_gmail_account env_gmail_reply gmail_account_b (AsyncSessionLocal store_gmail_b) =
     Inr (gmail_account_b,
          \<lparr>committed = store_gmail_b, working = store_gmail_b,
           trace = [FetchCall GMAIL (Some ''gtok1'') (Some ''h1''), Commit store_gmail_b]\<rparr>) \<and>
   map token_expiry (accounts (without_expiry store_gmail_b)) = [None] \<and>
   fst (sync_account_async env_gmail_reply 1 (without_expiry store_gmail_b)) = Success 1 \<and>
   threads (committed (snd (sync_account_async env_gmail_reply 1 (without_expiry store_gmail_b))))
     = threads store_gmail_b \<and>
   messages (committed (snd (sync_account_async env_gmail_reply 1 (without_expiry store_gmail_b))))
     = messages store_gmail_b \<and>
   length (messages store_gmail_b) = 1 \<and>
   map t_last_message_at (threads store_gmail_b) = [Some 1704103200] \<and>
   map token_expiry (accounts (without_expiry store1)) = [None] \<and>
   fst (sync_account_async env_outlook_reply 1 (without_expiry store1)) = Success 1 \<and>
   threads (committed (snd (sync_account_async env_outlook_reply 1 (without_expiry store1))))
     = threads store2 \<and>
   messages (committed (snd (sync_account_async env_outlook_reply 1 (without_expiry store1))))
     = messages store2"
  by (simp add: eval_sync env_gmail_reply_def env_outlook_reply_def env1_def env0_def
        without_expiry_def store_gmail_b_def gmail_account_b_def message_m1_def gmail_msg2_def
        store1_def store2_def outlook_account1_def message_o1_def message_o2_def om2_def
        lib0_def process_gmail_history_def)

text \<open>
  Claim C9. A stored cursor that the provider rejects is to make the adapter fall back to
  a full fetch, invisibly to the caller. The Gmail adapter does (its \<open>try\<close> around
  \<open>history.list\<close>): with the history request failing it returns the full result and a
  fresh history id. The Outlook adapter requests the delta link and calls
  \<open>raise_for_status()\<close> with nothing around it: the 410 reaches the caller, although the
  inbox query would have been served, and the sync raises with the store unchanged. So it
  does for the account without a stored token expiry, whose sync gets as far as the fetch
  with the stored delta link.
\<close>

theorem outlook_stale_cursor_raises:
  "outlook_fetch_messages env_stale_cursor (Some ''tok1'') 50 (Some ''dl1'') =
     Inl (HTTPStatusError 410) \<and>
   outlook_fetch_messages env_stale_cursor (Some ''tok1'') 50 None =
     Inr \<lparr>of_messages = [om1], of_delta_link = Some ''dl2'', of_next_link = None\<rparr> \<and>
   fst (sync_account_async env_stale_cursor 1 store1) = Raised (NameError ''self'') \<and>
   committed (snd (sync_account_async env_stale_cursor 1 store1)) = store1 \<and>
   gmail_history_list env0 (Some ''gtok1'') ''h1'' = Inl (HTTPStatusError 404) \<and>
   gmail_fetch_messages env0 (Some ''gtok1'') 50 (Some ''h1'') =
     Inr (FullResult [gmail_msg_no_to] (Some ''h2'')) \<and>
   sync_outlook_account env_stale_cursor outlook_account1 (AsyncSessionLocal store1) =
     Inl (HTTPStatusError 410,
          \<lparr>committed = store1, working = store1,
           trace = [FetchCall OUTLOOK (Some ''tok2'') (Some ''dl2'')]\<rparr>) \<and>
   fst (sync_account_async env_stale_cursor 1 (without_expiry store1))
     = Raised (NameError ''self'') \<and>
   trace (snd (sync_account_async env_stale_cursor 1 (without_expiry store1))) =
     [FetchCall OUTLOOK (Some ''tok2'') (Some ''dl2''), Rollback] \<and>
   committed (snd (sync_account_async env_stale_cursor 1 (without_expiry store1)))
     = without_expiry store1"
  by (simp add: eval_sync env_stale_cursor_def env0_def without_expiry_def store1_def
        outlook_account1_def message_o1_def)

section \<open>Credentials\<close>


text \<open>
  The sync of an account that is found, active and without a stored expiry is not skipped,
  and its one provider call is the fetch with the stored access token and cursor.
\<close>

lemma sync_account_async_fetches:
  assumes found: "filter (\<lambda>a. acc_id a = aid) (accounts s) = [account]"
    and active: "is_active account"
    and no_expiry: "token_expiry account = None"
  shows "(\<forall>reason. fst (sync_account_async env aid s) \<noteq> Skipped reason) \<and>
         provider_calls (trace (snd (sync_account_async env aid s))) =
           [FetchCall (acc_provider account) (access_token account) (cursor_of account)]"
proof -
  note f = sync_account_async_found [OF found active no_expiry, of env]
  show ?thesis
  proof (cases "sync_provider_account env account (AsyncSessionLocal s)")
    case (Inl p)
    obtain e db2 where p: "p = (e, db2)" by (cases p)
    from sync_provider_account_Inl [OF Inl [unfolded p]]
    have "db2 = record_event
            (FetchCall (acc_provider account) (access_token account) (cursor_of account))
            (AsyncSessionLocal s)" .
    with f Inl p show ?thesis by simp
  next
    case (Inr p)
    obtain a2 db2 where p: "p = (a2, db2)" by (cases p)
    from sync_provider_account_Inr [OF Inr [unfolded p]] obtain w where
      "db2 = commit a2
                ((record_event
                    (FetchCall (acc_provider account) (access_token account) (cursor_of account))
                    (AsyncSessionLocal s))
                   \<lparr>working := w\<rparr>)"
      by blast
    with f Inr p show ?thesis by simp
  qed
qed

text \<open>
  Claim C10. When the token expiry lies in the past and there is no encrypted refresh
  token, the refresh step is to mark the account inactive and return, and the sync is to go
  on to the fetch with the stale access token. \<open>refresh_token\<close>, called on such an
  account, does mark it inactive and returns with no commit. The sync does not get there:
  the stored expiry is an aware datetime, the expiry check compares it with the naive
  \<open>datetime.utcnow()\<close>, and the \<open>TypeError\<close> ends the sync in its handler, with no
  provider call, the database as before and the account still active.
\<close>

theorem expired_token_sync_raises_at_expiry_check:
  "map token_expiry (accounts store_no_refresh_token) = [Some 1704100000] \<and>
   map encrypted_refresh_token (accounts store_no_refresh_token) = [None] \<and>
   map is_active (accounts store_no_refresh_token) = [True] \<and>
   utcnow_check env0 = 1704200000 \<and>
   refresh_if_expired env0 (hd (accounts store_no_refresh_token))
       (AsyncSessionLocal store_no_refresh_token) = Inl TypeError \<and>
   sync_account_async env0 1 store_no_refresh_token =
     (Raised (NameError ''self''),
      \<lparr>committed = store_no_refresh_token, working = store_no_refresh_token,
       trace = [Rollback]\<rparr>) \<and>
   refresh_token env0 (hd (accounts store_no_refresh_token))
       (AsyncSessionLocal store_no_refresh_token) =
     ((hd (accounts store_no_refresh_token))\<lparr>is_active := False\<rparr>,
      AsyncSessionLocal store_no_refresh_token)"
  by (simp add: eval_sync store_no_refresh_token_def env0_def store0_def outlook_account0_def)







section \<open>Overlapping syncs\<close>

text \<open>
  The account row in the states that a successful sync commits: the same account, active
  and without a stored expiry.
\<close>

lemma sync_account_async_committed_row:
  assumes run: "sync_account_async env aid s = (out, db')"
    and found: "filter (\<lambda>a. acc_id a = aid) (accounts s) = [account]"
    and active: "is_active account" and no_expiry: "token_expiry account = None"
    and c: "c \<in> set (s # commit_states (trace db'))"
  shows "\<exists>a'. filter (\<lambda>a. acc_id a = aid) (accounts c) = [a'] \<and> is_active a' \<and>
              token_expiry a' = None \<and> acc_provider a' = acc_provider account"
  using run
proof (cases rule: sync_account_async_cases)
  case skipped
  from found have "account \<in> set (filter (\<lambda>a. acc_id a = aid) (accounts s))" by simp
  with skipped(3) active show ?thesis by simp
next
  case (ambiguous x y zs)
  with found show ?thesis by simp
next
  case (expiry account' e)
  with found no_expiry show ?thesis by simp
next
  case (failed account')
  with c have "c = s" by simp
  with found active no_expiry show ?thesis by simp
next
  case (succeeded account' a2 w)
  let ?a3 = "a2\<lparr>last_synced_at := Some (utcnow_synced env)\<rparr>"
  let ?c1 = "as_stored (set_account a2 w)"
  let ?c2 = "as_stored (set_account ?a3 ?c1)"
  from succeeded(1) found have same: "account' = account" by simp
  from succeeded(12) have "commit_states (trace db') = [?c1, ?c2]" by simp
  with c have cases: "c = s \<or> c = ?c1 \<or> c = ?c2" by auto
  from ingested_accounts [OF succeeded(4)] succeeded(1)
  have "filter (\<lambda>a. acc_id a = aid) (accounts w) = [account']" by simp
  with filter_set_account [of a2 aid w] succeeded(5)
  have f1: "filter (\<lambda>a. acc_id a = aid) (accounts ?c1) = [a2]" by simp
  with filter_set_account [of ?a3 aid ?c1] succeeded(5)
  have f2: "filter (\<lambda>a. acc_id a = aid) (accounts ?c2) = [?a3]" by simp
  from cases show ?thesis
  proof (elim disjE)
    assume "c = s"
    with found active no_expiry show ?thesis by simp
  next
    assume "c = ?c1"
    with f1 succeeded(6,7,9) same show ?thesis by simp
  next
    assume "c = ?c2"
    with f2 succeeded(6,7,9) same show ?thesis by simp
  qed
qed

text \<open>
  Claim C5, as the code has it. The claim asks for a lease per account: a call that arrives
  while another sync of the same account is in progress is to return Skipped, reason
  "in progress", without running the pipeline. The code takes no lease and keeps no mark
  of a running sync; what a call does is decided by the database it finds. A call is
  skipped only with the reason "account not found or inactive", before any provider call,
  and only if no active row of the account exists. A second call that arrives while a sync
  that is not skipped is in progress finds the database as that sync found it or as one of
  its commits left it: the second call is not skipped either, whatever its world, and for
  an account without a stored expiry it fetches from the provider.
\<close>

theorem sync_skips_only_missing_or_inactive:
  assumes run: "sync_account_async env account_id s = (out, db')"
  shows "(\<forall>reason. out = Skipped reason \<longrightarrow>
            reason = ''account not found or inactive'' \<and>
            db' = AsyncSessionLocal s \<and>
            (\<forall>a\<in>set (accounts s). acc_id a = account_id \<longrightarrow> \<not> is_active a)) \<and>
         ((\<forall>reason. out \<noteq> Skipped reason) \<longrightarrow>
            (\<forall>c\<in>set (s # commit_states (trace db')). \<forall>env'.
               (\<forall>reason. fst (sync_account_async env' account_id c) \<noteq> Skipped reason) \<and>
               (\<forall>account.
                  filter (\<lambda>a. acc_id a = account_id) (accounts s) = [account] \<and>
                  token_expiry account = None \<longrightarrow>
                    (\<exists>tok cur. FetchCall (acc_provider account) tok cur
                        \<in> set (trace (snd (sync_account_async env' account_id c)))))))"
proof -
  have first: "\<forall>reason. out = Skipped reason \<longrightarrow>
            reason = ''account not found or inactive'' \<and>
            db' = AsyncSessionLocal s \<and>
            (\<forall>a\<in>set (accounts s). acc_id a = account_id \<longrightarrow> \<not> is_active a)"
    using run by (cases rule: sync_account_async_cases) simp_all
  have second: "(\<forall>reason. fst (sync_account_async env' account_id c) \<noteq> Skipped reason) \<and>
               (\<forall>account.
                  filter (\<lambda>a. acc_id a = account_id) (accounts s) = [account] \<and>
                  token_expiry account = None \<longrightarrow>
                    (\<exists>tok cur. FetchCall (acc_provider account) tok cur
                        \<in> set (trace (snd (sync_account_async env' account_id c)))))"
    if ns: "\<forall>reason. out \<noteq> Skipped reason" and c: "c \<in> set (s # commit_states (trace db'))"
    for c env'
    using run
  proof (cases rule: sync_account_async_cases)
    case skipped
    with ns show ?thesis by simp
  next
    case (ambiguous x y zs)
    with c have "c = s" by simp
    with ambiguous(1) sync_account_async_multiple [OF ambiguous(1), of env']
    show ?thesis by simp
  next
    case (expiry account e)
    with c have "c = s" by simp
    with expiry(1,3) sync_account_async_expiry [OF expiry(1,2,3), of env']
    show ?thesis by simp
  next
    case (failed account)
    from sync_account_async_committed_row [OF run failed(1,2,3) c] obtain a' where
      a': "filter (\<lambda>a. acc_id a = account_id) (accounts c) = [a']" "is_active a'"
        "token_expiry a' = None" and p: "acc_provider a' = acc_provider account"
      by blast
    note f = sync_account_async_fetches [OF a', of env']
    from f p have "FetchCall (acc_provider account) (access_token a') (cursor_of a')
        \<in> set (provider_calls (trace (snd (sync_account_async env' account_id c))))"
      by simp
    then have "FetchCall (acc_provider account) (access_token a') (cursor_of a')
        \<in> set (trace (snd (sync_account_async env' account_id c)))"
      by (simp add: provider_calls_def)
    with f failed(1) show ?thesis by auto
  next
    case (succeeded account a2 w)
    from sync_account_async_committed_row [OF run succeeded(1,2,3) c] obtain a' where
      a': "filter (\<lambda>a. acc_id a = account_id) (accounts c) = [a']" "is_active a'"
        "token_expiry a' = None" and p: "acc_provider a' = acc_provider account"
      by blast
    note f = sync_account_async_fetches [OF a', of env']
    from f p have "FetchCall (acc_provider account) (access_token a') (cursor_of a')
        \<in> set (provider_calls (trace (snd (sync_account_async env' account_id c))))"
      by simp
    then have "FetchCall (acc_provider account) (access_token a') (cursor_of a')
        \<in> set (trace (snd (sync_account_async env' account_id c)))"
      by (simp add: provider_calls_def)
    with f succeeded(1) show ?thesis by auto
  qed
  from first second show ?thesis by blast
qed

theorem sync_skips_only_missing_or_inactive_witness:
  "fst first_run = Success 1 \<and>
   length (commit_states (trace (snd first_run))) = 2 \<and>
   map token_expiry (accounts store0) = [None] \<and>
   fst (sync_account_async env1 1 (commit_states (trace (snd first_run)) ! 0))
     \<noteq> Skipped ''in progress'' \<and>
   (\<exists>tok cur. FetchCall OUTLOOK tok cur
       \<in> set (trace (snd (sync_account_async env1 1 (commit_states (trace (snd first_run)) ! 0))))) \<and>
   fst (sync_account_async env1 1 store0) \<noteq> Skipped ''in progress'' \<and>
   (\<exists>tok cur. FetchCall OUTLOOK tok cur
       \<in> set (trace (snd (sync_account_async env1 1 store0))))"
proof -
  let ?c = "commit_states (trace (snd first_run)) ! 0"
  have o: "fst first_run = Success 1"
    by (simp add: first_run_def eval_sync env0_def store0_def outlook_account0_def om1_def
          lib0_def)
  have l: "length (commit_states (trace (snd first_run))) = 2"
    by (simp add: first_run_def eval_sync env0_def store0_def outlook_account0_def om1_def
          lib0_def)
  have e: "map token_expiry (accounts store0) = [None]"
    by (simp add: store0_def outlook_account0_def)
  have run: "sync_account_async env0 1 store0 = (fst first_run, snd first_run)"
    by (simp add: first_run_def)
  note t = sync_skips_only_missing_or_inactive [OF run]
  from o have ns: "\<forall>reason. fst first_run \<noteq> Skipped reason" by simp
  from l have m0: "?c \<in> set (store0 # commit_states (trace (snd first_run)))" by simp
  have ms: "store0 \<in> set (store0 # commit_states (trace (snd first_run)))" by simp
  have a: "filter (\<lambda>a. acc_id a = 1) (accounts store0) = [outlook_account0] \<and>
           token_expiry outlook_account0 = None"
    by (simp add: store0_def outlook_account0_def)
  have p: "acc_provider outlook_account0 = OUTLOOK" by (simp add: outlook_account0_def)
  from t ns m0 have
    c0: "(\<forall>reason. fst (sync_account_async env1 1 ?c) \<noteq> Skipped reason) \<and>
         (\<forall>account. filter (\<lambda>a. acc_id a = 1) (accounts store0) = [account] \<and>
                    token_expiry account = None \<longrightarrow>
            (\<exists>tok cur. FetchCall (acc_provider account) tok cur
                \<in> set (trace (snd (sync_account_async env1 1 ?c)))))"
    by blast
  from t ns ms have
    cs: "(\<forall>reason. fst (sync_account_async env1 1 store0) \<noteq> Skipped reason) \<and>
         (\<forall>account. filter (\<lambda>a. acc_id a = 1) (accounts store0) = [account] \<and>
                    token_expiry account = None \<longrightarrow>
            (\<exists>tok cur. FetchCall (acc_provider account) tok cur
                \<in> set (trace (snd (sync_account_async env1 1 store0)))))"
    by blast
  from c0 a p have "\<exists>tok cur. FetchCall OUTLOOK tok cur
       \<in> set (trace (snd (sync_account_async env1 1 ?c)))"
    by metis
  moreover from cs a p have "\<exists>tok cur. FetchCall OUTLOOK tok cur
       \<in> set (trace (snd (sync_account_async env1 1 store0)))"
    by metis
  ultimately show ?thesis using o l e c0 cs by simp
qed

text \<open>
  Claim C5 as stated fails. The first sync commits twice; a second call that arrives after
  the first of these commits finds the database in that committed state, with the first
  sync still in progress. It is not skipped: it fetches with the new cursor and returns
  success. So does a second call that arrives before the first commit, which fetches
  and ingests the same message as the first: both pipelines execute.
\<close>

theorem overlapping_sync_executes_pipeline:
  "fst first_run = Success 1 \<and>
   length (commit_states (trace (snd first_run))) = 2 \<and>
   fst (sync_account_async env0 1 (commit_states (trace (snd first_run)) ! 0)) = Success 1 \<and>
   provider_calls
     (trace (snd (sync_account_async env0 1 (commit_states (trace (snd first_run)) ! 0)))) =
     [FetchCall OUTLOOK (Some ''tok1'') (Some ''dl2'')] \<and>
   fst (sync_account_async env0 1 store0) = Success 1 \<and>
   provider_calls (trace (snd (sync_account_async env0 1 store0))) =
     [FetchCall OUTLOOK (Some ''tok1'') None] \<and>
   map m_provider_message_id (messages (committed (snd (sync_account_async env0 1 store0))))
     = [''o1'']"
proof -
  let ?a = "\<lparr>acc_id = 1, acc_provider = OUTLOOK, access_token = Some ''tok1'',
            encrypted_refresh_token = Some ''enc:r1'', token_expiry = None,
            sync_state = Some [(''delta_link'', ''dl2'')], last_synced_at = None,
            is_active = True\<rparr>"
  have c: "commit_states (trace (snd first_run)) ! 0 =
     \<lparr>accounts = [?a],
      threads =
        [\<lparr>t_id = 1, t_account_id = 1, t_provider_thread_id = ''c1'',
            t_subject = ''Hello'', t_snippet = ''hello'',
            t_last_message_at = Some 1704103200, t_last_message_at_aware = True\<rparr>],
      messages =
        [\<lparr>m_id = 1, m_thread_id = 1, m_provider_message_id = ''o1'',
            m_from_addr = ''alice@example.org'',
            m_to_addrs = [''bob@example.org''], m_cc_addrs = [],
            m_bcc_addrs = [], m_subject = ''Hello'', m_date = 1704103200,
            m_body_text = ''hello'', m_body_html = [],
            m_has_attachments = False, m_is_read = False\<rparr>],
      attachments = []\<rparr>"
    by (simp add: first_run_def eval_sync env0_def store0_def outlook_account0_def om1_def
          lib0_def)
  have l: "length (commit_states (trace (snd first_run))) = 2"
    by (simp add: first_run_def eval_sync env0_def store0_def outlook_account0_def om1_def
          lib0_def)
  have o: "fst first_run = Success 1"
    by (simp add: first_run_def eval_sync env0_def store0_def outlook_account0_def om1_def
          lib0_def)
  have s: "fst (sync_account_async env0 1 store0) = Success 1 \<and>
   provider_calls (trace (snd (sync_account_async env0 1 store0))) =
     [FetchCall OUTLOOK (Some ''tok1'') None] \<and>
   map m_provider_message_id (messages (committed (snd (sync_account_async env0 1 store0))))
     = [''o1'']"
    by (simp add: eval_sync env0_def store0_def outlook_account0_def om1_def lib0_def)
  have "fst (sync_account_async env0 1 (commit_states (trace (snd first_run)) ! 0)) = Success 1 \<and>
   provider_calls
     (trace (snd (sync_account_async env0 1 (commit_states (trace (snd first_run)) ! 0)))) =
     [FetchCall OUTLOOK (Some ''tok1'') (Some ''dl2'')]"
    by (simp add: c eval_sync env0_def om1_def lib0_def)
  with l o s show ?thesis by simp
qed

end
